theory Spec2Isabelle
  imports Main
begin

section \<open>Values\<close>

text \<open>
  The embedding follows \<^verbatim>\<open>src/services/lisp.ts\<close> (reader, evaluator, primitives,
  boundary scanner, printer) and the host interface \<^verbatim>\<open>api\<close> of the application
  component.

  Numbers. The source's numbers are IEEE doubles. The model carries the integers of
  magnitude at most \<open>2^53\<close> exactly (\<open>Integer\<close>): on these the source's arithmetic,
  comparison, \<^verbatim>\<open>parseFloat\<close> and \<^verbatim>\<open>toString\<close> are exact. Any other double is carried
  as \<open>Double tok\<close>, the double that \<^verbatim>\<open>parseFloat\<close> reads from the token \<open>tok\<close>, without
  its value.
\<close>

datatype jsnumber = Integer int | Double string

definition safe :: "int \<Rightarrow> bool" where
  "safe i = (\<bar>i\<bar> \<le> 2 ^ 53)"

text \<open>The builtins registered by \<^verbatim>\<open>createGlobalEnv\<close>, by name.\<close>

datatype primitive =
    Plus | Minus | Times | Divide | NumEq | Less | Greater
  | ListOp | Cons | Car | Cdr
  | Message | Insert | BufferName | CurrentBuffer | SwitchToBuffer | KillBuffer
  | Point | PointMin | PointMax | GotoChar

text \<open>
  \<^verbatim>\<open>LispVal\<close>: one constructor for each \<^verbatim>\<open>type\<close> tag, carrying the fields that the
  constructors \<^verbatim>\<open>mkNum\<close>, \<^verbatim>\<open>mkStr\<close>, \<^verbatim>\<open>mkSym\<close>, \<^verbatim>\<open>mkBool\<close>, \<^verbatim>\<open>mkList\<close>, \<^verbatim>\<open>mkNull\<close>, \<^verbatim>\<open>defun\<close>
  and \<^verbatim>\<open>register\<close> set. \<open>UNDEFINED\<close> is the JavaScript value \<^verbatim>\<open>undefined\<close> in a place
  typed \<^verbatim>\<open>LispVal\<close>: an array read past the end (\<^verbatim>\<open>elements[1]\<close> of a one-element list,
  \<^verbatim>\<open>args[0]\<close> of an empty argument list). Reading a field of it throws a \<^verbatim>\<open>TypeError\<close>.
\<close>

datatype LispVal =
    SYMBOL string
  | NUMBER jsnumber
  | STRING string
  | LIST "LispVal list"
  | FUNC "string list" LispVal
  | PRIMITIVE primitive
  | BOOL bool
  | NULL
  | UNDEFINED

text \<open>
  Failures. \<open>Error msg\<close> is \<^verbatim>\<open>throw new Error(msg)\<close>; \<open>TypeError\<close> is the runtime's
  exception for a property read on \<^verbatim>\<open>undefined\<close>. \<open>OutsideModel\<close> is not a behaviour of
  the program: it ends an execution that the model does not follow, namely one that
  computes with a double that is not an \<open>Integer\<close>, that applies a numeric or
  string operation to a payload of another type, or that uses \<^verbatim>\<open>undefined\<close> as a name.
\<close>

datatype failure = Error string | TypeError | OutsideModel

text \<open>The payload \<^verbatim>\<open>value?: any\<close>, the fields \<^verbatim>\<open>elements\<close> and \<^verbatim>\<open>name\<close>, and array reads.\<close>

datatype jsval = JSundefined | JSnumber jsnumber | JSstring string | JSboolean bool

fun value_of :: "LispVal \<Rightarrow> failure + jsval" where
  "value_of UNDEFINED = Inl TypeError"
| "value_of (NUMBER n) = Inr (JSnumber n)"
| "value_of (STRING s) = Inr (JSstring s)"
| "value_of (BOOL b) = Inr (JSboolean b)"
| "value_of _ = Inr JSundefined"

fun elements_of :: "LispVal \<Rightarrow> failure + LispVal list option" where
  "elements_of UNDEFINED = Inl TypeError"
| "elements_of (LIST es) = Inr (Some es)"
| "elements_of _ = Inr None"

fun name_of :: "LispVal \<Rightarrow> failure + string option" where
  "name_of UNDEFINED = Inl TypeError"
| "name_of (SYMBOL s) = Inr (Some s)"
| "name_of _ = Inr None"

definition at :: "LispVal list \<Rightarrow> nat \<Rightarrow> LispVal" where
  "at xs i = (if i < length xs then xs ! i else UNDEFINED)"

definition isTrue :: "LispVal \<Rightarrow> failure + bool" where
  "isTrue v = (case v of
      UNDEFINED \<Rightarrow> Inl TypeError
    | NULL \<Rightarrow> Inr False
    | BOOL b \<Rightarrow> Inr b
    | _ \<Rightarrow> Inr True)"

section \<open>Strings and characters\<close>

text \<open>
  Strings are lists of \<open>char\<close>: the code units below 256. \<open>isSpace\<close> is the class \<^verbatim>\<open>\s\<close>
  on these, \<open>isDigit\<close> the class \<^verbatim>\<open>\d\<close>.
\<close>

definition dq :: char where "dq = CHR 0x22"
definition bslash :: char where "bslash = CHR 0x5C"

definition isSpace :: "char \<Rightarrow> bool" where
  "isSpace c = (c = CHR 0x09 \<or> c = CHR 0x0A \<or> c = CHR 0x0B \<or> c = CHR 0x0C \<or> c = CHR 0x0D
     \<or> c = CHR 0x20 \<or> c = CHR 0xA0)"

definition isDigit :: "char \<Rightarrow> bool" where
  "isDigit c = (48 \<le> (of_char c :: nat) \<and> (of_char c :: nat) \<le> 57)"

definition isDelim :: "char \<Rightarrow> bool" where
  "isDelim c = (isSpace c \<or> c = CHR ''('' \<or> c = CHR '')'')"

definition slice :: "string \<Rightarrow> nat \<Rightarrow> nat \<Rightarrow> string" where
  "slice s a b = take (b - a) (drop a s)"

definition digitChar :: "nat \<Rightarrow> char" where
  "digitChar d = char_of (48 + d)"

function natToString :: "nat \<Rightarrow> string" where
  "natToString n = (if n < 10 then [digitChar n] else natToString (n div 10) @ [digitChar (n mod 10)])"
  by pat_completeness auto
termination
  by (relation "measure id") auto

declare natToString.simps [simp del]

definition intToString :: "int \<Rightarrow> string" where
  "intToString i = (if i < 0 then CHR ''-'' # natToString (nat (- i)) else natToString (nat i))"

text \<open>\<^verbatim>\<open>Number.prototype.toString\<close>, on the numbers the model carries.\<close>

definition numToString :: "jsnumber \<Rightarrow> failure + string" where
  "numToString n = (case n of
      Integer i \<Rightarrow> if safe i then Inr (intToString i) else Inl OutsideModel
    | Double tok \<Rightarrow> Inl OutsideModel)"

section \<open>Reader\<close>

function skipWhitespace :: "string \<Rightarrow> nat \<Rightarrow> nat" where
  "skipWhitespace input pos =
     (if pos < length input \<and> isSpace (input ! pos) then skipWhitespace input (pos + 1) else pos)"
  by pat_completeness auto
termination
  by (relation "measure (\<lambda>(input, pos). length input - pos)") auto

declare skipWhitespace.simps [simp del]

text \<open>The loop of \<^verbatim>\<open>parseString\<close>: a backslash skips the character after it.\<close>

function stringEnd :: "string \<Rightarrow> nat \<Rightarrow> nat" where
  "stringEnd input pos =
     (if pos < length input \<and> input ! pos \<noteq> dq
      then stringEnd input (if input ! pos = bslash then pos + 2 else pos + 1)
      else pos)"
  by pat_completeness auto
termination
  by (relation "measure (\<lambda>(input, pos). length input - pos)") auto

declare stringEnd.simps [simp del]

text \<open>\<^verbatim>\<open>s.replace(/\\"/g, '"')\<close> and \<^verbatim>\<open>s.replace(/\\n/g, '\n')\<close>: leftmost matches, left to right.\<close>

fun unescapeQuote :: "string \<Rightarrow> string" where
  "unescapeQuote (a # b # cs) =
     (if a = bslash \<and> b = dq then dq # unescapeQuote cs else a # unescapeQuote (b # cs))"
| "unescapeQuote cs = cs"

fun unescapeNewline :: "string \<Rightarrow> string" where
  "unescapeNewline (a # b # cs) =
     (if a = bslash \<and> b = CHR ''n'' then CHR 0x0A # unescapeNewline cs
      else a # unescapeNewline (b # cs))"
| "unescapeNewline cs = cs"

definition parseString :: "string \<Rightarrow> nat \<Rightarrow> LispVal \<times> nat" where
  "parseString input pos =
     (let start = pos + 1;
          e = stringEnd input start;
          s = slice input start e
      in (STRING (unescapeNewline (unescapeQuote s)), e + 1))"

function atomEnd :: "string \<Rightarrow> nat \<Rightarrow> nat" where
  "atomEnd input pos =
     (if pos < length input \<and> \<not> isDelim (input ! pos) then atomEnd input (pos + 1) else pos)"
  by pat_completeness auto
termination
  by (relation "measure (\<lambda>(input, pos). length input - pos)") auto

declare atomEnd.simps [simp del]

text \<open>The test \<^verbatim>\<open>/^-?\d+(\.\d+)?$/\<close>.\<close>

definition isNumberToken :: "string \<Rightarrow> bool" where
  "isNumberToken tok =
     (let t = (case tok of [] \<Rightarrow> [] | c # cs \<Rightarrow> if c = CHR ''-'' then cs else tok);
          ip = takeWhile isDigit t;
          r = dropWhile isDigit t
      in ip \<noteq> [] \<and>
         (case r of [] \<Rightarrow> True | d # fp \<Rightarrow> d = CHR ''.'' \<and> fp \<noteq> [] \<and> list_all isDigit fp))"

definition digitsValue :: "string \<Rightarrow> int" where
  "digitsValue ds = foldl (\<lambda>a c. 10 * a + ((of_char c :: int) - 48)) 0 ds"

text \<open>
  \<^verbatim>\<open>parseFloat\<close> on a token that passed the test: an integer of magnitude at most \<open>2^53\<close>
  when the fraction digits are all zero, another double otherwise.
\<close>

definition parseFloat :: "string \<Rightarrow> jsnumber" where
  "parseFloat tok =
     (let neg = (case tok of [] \<Rightarrow> False | c # cs \<Rightarrow> c = CHR ''-'');
          t = (if neg then tl tok else tok);
          ip = takeWhile isDigit t;
          fp = drop 1 (dropWhile isDigit t);
          n = digitsValue ip
      in if list_all (\<lambda>c. c = CHR ''0'') fp \<and> safe n
         then Integer (if neg then - n else n)
         else Double tok)"

definition parseAtom :: "string \<Rightarrow> nat \<Rightarrow> LispVal \<times> nat" where
  "parseAtom input pos =
     (let e = atomEnd input pos;
          token = slice input pos e
      in (if token = ''t'' then BOOL True
          else if token = ''nil'' then NULL
          else if isNumberToken token then NUMBER (parseFloat token)
          else SYMBOL token, e))"

text \<open>
  \<^verbatim>\<open>parseExpr\<close>, \<^verbatim>\<open>parseList\<close> and \<^verbatim>\<open>parseQuote\<close> call each other, each from the position
  the previous one reached. The first argument bounds the depth of the calls; \<open>None\<close>
  means that the bound was reached. \<open>parseListLoop\<close> is the loop of \<^verbatim>\<open>parseList\<close>, with
  the elements read so far.
\<close>

fun parseExpr :: "nat \<Rightarrow> string \<Rightarrow> nat \<Rightarrow> (failure + LispVal \<times> nat) option"
and parseListLoop :: "nat \<Rightarrow> string \<Rightarrow> nat \<Rightarrow> LispVal list \<Rightarrow> (failure + LispVal \<times> nat) option"
and parseQuote :: "nat \<Rightarrow> string \<Rightarrow> nat \<Rightarrow> (failure + LispVal \<times> nat) option"
where
  "parseExpr 0 input pos = None"
| "parseExpr (Suc k) input pos =
     (let p = skipWhitespace input pos
      in if p \<ge> length input then Some (Inr (NULL, p))
         else if input ! p = dq then Some (Inr (parseString input p))
         else if input ! p = CHR ''('' then parseListLoop k input (p + 1) []
         else if input ! p = CHR 0x27 then parseQuote k input p
         else Some (Inr (parseAtom input p)))"
| "parseListLoop 0 input pos elements = None"
| "parseListLoop (Suc k) input pos elements =
     (if pos < length input then
        (let p = skipWhitespace input pos
         in if p < length input \<and> input ! p = CHR '')'' then Some (Inr (LIST elements, p + 1))
            else (case parseExpr k input p of
                    None \<Rightarrow> None
                  | Some (Inl e) \<Rightarrow> Some (Inl e)
                  | Some (Inr (v, p')) \<Rightarrow> parseListLoop k input p' (elements @ [v])))
      else Some (Inl (Error ''Unclosed list'')))"
| "parseQuote 0 input pos = None"
| "parseQuote (Suc k) input pos =
     (case parseExpr k input (pos + 1) of
        None \<Rightarrow> None
      | Some (Inl e) \<Rightarrow> Some (Inl e)
      | Some (Inr (v, p')) \<Rightarrow> Some (Inr (LIST [SYMBOL ''quote'', v], p')))"

text \<open>
  \<^verbatim>\<open>parse\<close>. The bound \<open>2 * length input + 2\<close> is never reached (\<open>parse_returns\<close> below).
\<close>

definition parse :: "string \<Rightarrow> (failure + LispVal) option" where
  "parse input = map_option (map_sum id fst) (parseExpr (2 * length input + 2) input 0)"

section \<open>Printer and JSON text\<close>

text \<open>\<^verbatim>\<open>Array.prototype.join\<close> on strings.\<close>

fun join :: "string \<Rightarrow> string list \<Rightarrow> string" where
  "join sep [] = []"
| "join sep [x] = x"
| "join sep (x # y # ys) = x @ sep @ join sep (y # ys)"

text \<open>The first failure of a list of results, as a \<^verbatim>\<open>map\<close> whose callback throws.\<close>

fun sequence :: "(failure + 'a) list \<Rightarrow> failure + 'a list" where
  "sequence [] = Inr []"
| "sequence (Inl e # rs) = Inl e"
| "sequence (Inr x # rs) = (case sequence rs of Inl e \<Rightarrow> Inl e | Inr xs \<Rightarrow> Inr (x # xs))"


text \<open>
  \<^verbatim>\<open>JSON.stringify\<close> on a \<^verbatim>\<open>LispVal\<close> object: the keys in the order the object literal
  gives them, no key for a function-valued field, \<^verbatim>\<open>null\<close> for \<^verbatim>\<open>undefined\<close> inside an
  array (the only place where \<open>stringify\<close> meets \<open>UNDEFINED\<close>).
\<close>

definition hexDigit :: "nat \<Rightarrow> char" where
  "hexDigit d = ''0123456789abcdef'' ! (d mod 16)"

definition jsonEscape :: "char \<Rightarrow> string" where
  "jsonEscape c =
     (if c = dq then [bslash, dq]
      else if c = bslash then [bslash, bslash]
      else if c = CHR 0x08 then [bslash, CHR ''b'']
      else if c = CHR 0x0C then [bslash, CHR ''f'']
      else if c = CHR 0x0A then [bslash, CHR ''n'']
      else if c = CHR 0x0D then [bslash, CHR ''r'']
      else if c = CHR 0x09 then [bslash, CHR ''t'']
      else if (of_char c :: nat) < 32
        then [bslash, CHR ''u'', CHR ''0'', CHR ''0'',
              hexDigit ((of_char c :: nat) div 16), hexDigit (of_char c :: nat)]
      else [c])"

definition jsonQuote :: "string \<Rightarrow> string" where
  "jsonQuote s = [dq] @ concat (map jsonEscape s) @ [dq]"

definition jsonObject :: "(string \<times> string) list \<Rightarrow> string" where
  "jsonObject kvs = ''{'' @ join '','' (map (\<lambda>(k, v). jsonQuote k @ '':'' @ v) kvs) @ ''}''"

definition jsonArray :: "string list \<Rightarrow> string" where
  "jsonArray vs = ''['' @ join '','' vs @ '']''"

fun stringify :: "LispVal \<Rightarrow> failure + string" where
  "stringify UNDEFINED = Inr ''null''"
| "stringify (SYMBOL s) =
     Inr (jsonObject [(''type'', jsonQuote ''SYMBOL''), (''name'', jsonQuote s)])"
| "stringify (NUMBER n) =
     (case numToString n of
        Inl e \<Rightarrow> Inl e
      | Inr t \<Rightarrow> Inr (jsonObject [(''type'', jsonQuote ''NUMBER''), (''value'', t)]))"
| "stringify (STRING s) =
     Inr (jsonObject [(''type'', jsonQuote ''STRING''), (''value'', jsonQuote s)])"
| "stringify (BOOL b) =
     Inr (jsonObject [(''type'', jsonQuote ''BOOL''), (''value'', if b then ''true'' else ''false'')])"
| "stringify (LIST es) =
     (case sequence (map stringify es) of
        Inl e \<Rightarrow> Inl e
      | Inr ss \<Rightarrow> Inr (jsonObject [(''type'', jsonQuote ''LIST''), (''elements'', jsonArray ss)]))"
| "stringify NULL = Inr (jsonObject [(''type'', jsonQuote ''NULL'')])"
| "stringify (FUNC ps body) =
     (case stringify body of
        Inl e \<Rightarrow> Inl e
      | Inr t \<Rightarrow> Inr (jsonObject [(''type'', jsonQuote ''FUNC''),
                                 (''params'', jsonArray (map jsonQuote ps)), (''body'', t)]))"
| "stringify (PRIMITIVE p) = Inr (jsonObject [(''type'', jsonQuote ''PRIMITIVE'')])"

section \<open>Host\<close>

text \<open>
  \<^verbatim>\<open>Buffer\<close> and the fields of \<^verbatim>\<open>EmacsState\<close> that the host interface reads and writes
  (the field \<^verbatim>\<open>id\<close> is \<open>bufferId\<close> here). A cursor is an offset into the content. The
  interface's \<^verbatim>\<open>refresh()\<close> only asks for a redraw and has no counterpart.
\<close>

record Buffer =
  bufferId :: string
  name :: string
  content :: string
  cursorPosition :: nat
  mode :: string
  isModified :: bool
  readOnly :: "bool option"

record EmacsState =
  buffers :: "Buffer list"
  activeBufferId :: string
  message :: string

fun findIndex :: "('a \<Rightarrow> bool) \<Rightarrow> 'a list \<Rightarrow> nat option" where
  "findIndex P [] = None"
| "findIndex P (x # xs) = (if P x then Some 0 else map_option Suc (findIndex P xs))"

definition api_message :: "string \<Rightarrow> EmacsState \<Rightarrow> EmacsState" where
  "api_message msg s = s\<lparr>message := msg\<rparr>"

definition api_insert :: "string \<Rightarrow> EmacsState \<Rightarrow> EmacsState" where
  "api_insert text s =
     (case findIndex (\<lambda>b. bufferId b = activeBufferId s) (buffers s) of
        None \<Rightarrow> s
      | Some bufIdx \<Rightarrow>
          (let buf = buffers s ! bufIdx;
               before = take (cursorPosition buf) (content buf);
               after = drop (cursorPosition buf) (content buf)
           in s\<lparr>buffers := (buffers s)[bufIdx := buf\<lparr>content := before @ text @ after,
                    cursorPosition := cursorPosition buf + length text,
                    isModified := True\<rparr>]\<rparr>))"

definition api_getBufferContent :: "EmacsState \<Rightarrow> string" where
  "api_getBufferContent s =
     (case find (\<lambda>b. bufferId b = activeBufferId s) (buffers s) of
        Some buf \<Rightarrow> content buf | None \<Rightarrow> [])"

definition api_getCursor :: "EmacsState \<Rightarrow> nat" where
  "api_getCursor s =
     (case find (\<lambda>b. bufferId b = activeBufferId s) (buffers s) of
        Some buf \<Rightarrow> cursorPosition buf | None \<Rightarrow> 0)"

definition api_setCursor :: "int \<Rightarrow> EmacsState \<Rightarrow> EmacsState" where
  "api_setCursor pos s =
     (case findIndex (\<lambda>b. bufferId b = activeBufferId s) (buffers s) of
        None \<Rightarrow> s
      | Some idx \<Rightarrow>
          (let buf = buffers s ! idx
           in s\<lparr>buffers := (buffers s)[idx := buf\<lparr>cursorPosition :=
                    nat (max 0 (min pos (int (length (content buf)))))\<rparr>]\<rparr>))"

definition api_switchBuffer :: "string \<Rightarrow> EmacsState \<Rightarrow> EmacsState" where
  "api_switchBuffer nm s =
     (case find (\<lambda>b. name b = nm) (buffers s) of
        Some existing \<Rightarrow> s\<lparr>activeBufferId := bufferId existing\<rparr>
      | None \<Rightarrow>
          (let newBuf = \<lparr>bufferId = nm, name = nm, content = [], cursorPosition = 0,
                          mode = ''Fundamental'', isModified = False, readOnly = None\<rparr>
           in s\<lparr>buffers := buffers s @ [newBuf], activeBufferId := bufferId newBuf\<rparr>))"

definition api_currentBufferName :: "EmacsState \<Rightarrow> string" where
  "api_currentBufferName s =
     (case find (\<lambda>b. bufferId b = activeBufferId s) (buffers s) of
        Some buf \<Rightarrow> name buf | None \<Rightarrow> [])"

text \<open>
  \<^verbatim>\<open>killBuffer\<close>: \<^verbatim>\<open>if (!killId) return\<close> also returns on the empty id. When the filter
  removes every buffer and the killed one was active, \<^verbatim>\<open>s.buffers[0].id\<close> throws.
\<close>

definition api_killBuffer :: "string \<Rightarrow> EmacsState \<Rightarrow> (failure + unit) \<times> EmacsState" where
  "api_killBuffer nm s =
     (if length (buffers s) \<le> 1 then (Inr (), s)
      else (case find (\<lambda>b. name b = nm) (buffers s) of
              None \<Rightarrow> (Inr (), s)
            | Some b \<Rightarrow>
                (let killId = bufferId b in
                 if killId = [] then (Inr (), s)
                 else (let s' = s\<lparr>buffers := filter (\<lambda>b. bufferId b \<noteq> killId) (buffers s)\<rparr>
                       in if activeBufferId s' = killId
                          then (case buffers s' of
                                  [] \<Rightarrow> (Inl TypeError, s')
                                | b0 # _ \<Rightarrow> (Inr (), s'\<lparr>activeBufferId := bufferId b0\<rparr>))
                          else (Inr (), s')))))"

section \<open>Environment\<close>

text \<open>
  \<^verbatim>\<open>LispEnv\<close>: the bindings and the enclosing environment. The field \<^verbatim>\<open>api\<close> is the one
  host of the session; its state is threaded beside the environment. An environment
  object is referred to only by the evaluator's own activations and by its children
  (a \<open>FUNC\<close> holds none), so the chain is a value: the state of the enclosing object
  is the \<open>outer\<close> of its child.
\<close>

datatype LispEnv = LispEnv (vars: "string \<rightharpoonup> LispVal") (outer: "LispEnv option")

fun env_get :: "LispEnv \<Rightarrow> string \<Rightarrow> failure + LispVal" where
  "env_get (LispEnv vs out) nm =
     (case vs nm of
        Some v \<Rightarrow> Inr v
      | None \<Rightarrow> (case out of
                   Some e \<Rightarrow> env_get e nm
                 | None \<Rightarrow> Inl (Error (''Void variable: '' @ nm))))"

definition env_set :: "LispEnv \<Rightarrow> string \<Rightarrow> LispVal \<Rightarrow> LispEnv" where
  "env_set env nm val = LispEnv ((vars env)(nm \<mapsto> val)) (outer env)"

definition env_define :: "LispEnv \<Rightarrow> string \<Rightarrow> LispVal \<Rightarrow> LispEnv" where
  "env_define env nm val = LispEnv ((vars env)(nm \<mapsto> val)) (outer env)"

section \<open>Primitive library\<close>

text \<open>A payload read as a number (\<^verbatim>\<open>b.value as number\<close>).\<close>

definition numArg :: "LispVal \<Rightarrow> failure + int" where
  "numArg v = (case value_of v of
      Inl e \<Rightarrow> Inl e
    | Inr (JSnumber (Integer i)) \<Rightarrow> Inr i
    | Inr _ \<Rightarrow> Inl OutsideModel)"

definition mkNum :: "int \<Rightarrow> failure + LispVal" where
  "mkNum i = (if safe i then Inr (NUMBER (Integer i)) else Inl OutsideModel)"

text \<open>\<^verbatim>\<open>args.reduce((a, b) => a + b.value, a0)\<close> and the same with \<^verbatim>\<open>*\<close>.\<close>

fun sumArgs :: "int \<Rightarrow> LispVal list \<Rightarrow> failure + int" where
  "sumArgs a [] = Inr a"
| "sumArgs a (b # bs) =
     (case numArg b of
        Inl e \<Rightarrow> Inl e
      | Inr n \<Rightarrow> if safe (a + n) then sumArgs (a + n) bs else Inl OutsideModel)"

fun prodArgs :: "int \<Rightarrow> LispVal list \<Rightarrow> failure + int" where
  "prodArgs a [] = Inr a"
| "prodArgs a (b # bs) =
     (case numArg b of
        Inl e \<Rightarrow> Inl e
      | Inr n \<Rightarrow> if safe (a * n) then prodArgs (a * n) bs else Inl OutsideModel)"

text \<open>\<^verbatim>\<open>===\<close> on payloads.\<close>

fun strictEq :: "jsval \<Rightarrow> jsval \<Rightarrow> failure + bool" where
  "strictEq (JSnumber (Integer i)) (JSnumber (Integer j)) = Inr (i = j)"
| "strictEq (JSnumber _) (JSnumber _) = Inl OutsideModel"
| "strictEq (JSstring s) (JSstring t) = Inr (s = t)"
| "strictEq (JSboolean a) (JSboolean b) = Inr (a = b)"
| "strictEq JSundefined JSundefined = Inr True"
| "strictEq _ _ = Inr False"

text \<open>The text that \<^verbatim>\<open>join\<close> gives for one payload.\<close>

fun joinText :: "jsval \<Rightarrow> failure + string" where
  "joinText JSundefined = Inr []"
| "joinText (JSstring s) = Inr s"
| "joinText (JSnumber n) = numToString n"
| "joinText (JSboolean b) = Inr (if b then ''true'' else ''false'')"

text \<open>
  The native function of each builtin, on the evaluated arguments and the host. None
  of them reads its second parameter \<^verbatim>\<open>env\<close>.
\<close>

definition applyPrimitive ::
  "primitive \<Rightarrow> LispVal list \<Rightarrow> EmacsState \<Rightarrow> (failure + LispVal) \<times> EmacsState" where
  "applyPrimitive p args h = (case p of
      Plus \<Rightarrow> (case sumArgs 0 args of Inl e \<Rightarrow> (Inl e, h) | Inr n \<Rightarrow> (mkNum n, h))
    | Minus \<Rightarrow>
        (case numArg (at args 0) of
           Inl e \<Rightarrow> (Inl e, h)
         | Inr a \<Rightarrow> (case sumArgs 0 (drop 1 args) of
                       Inl e \<Rightarrow> (Inl e, h)
                     | Inr b \<Rightarrow> (mkNum (a - b), h)))
    | Times \<Rightarrow> (case prodArgs 1 args of Inl e \<Rightarrow> (Inl e, h) | Inr n \<Rightarrow> (mkNum n, h))
    | Divide \<Rightarrow>
        (case numArg (at args 0) of
           Inl e \<Rightarrow> (Inl e, h)
         | Inr a \<Rightarrow> (case numArg (at args 1) of
                       Inl e \<Rightarrow> (Inl e, h)
                     | Inr b \<Rightarrow> (if b \<noteq> 0 \<and> b dvd a then mkNum (a div b)
                                  else Inl OutsideModel, h)))
    | NumEq \<Rightarrow>
        (case value_of (at args 0) of
           Inl e \<Rightarrow> (Inl e, h)
         | Inr a \<Rightarrow> (case value_of (at args 1) of
                       Inl e \<Rightarrow> (Inl e, h)
                     | Inr b \<Rightarrow> (map_sum id BOOL (strictEq a b), h)))
    | Less \<Rightarrow>
        (case numArg (at args 0) of
           Inl e \<Rightarrow> (Inl e, h)
         | Inr a \<Rightarrow> (case numArg (at args 1) of
                       Inl e \<Rightarrow> (Inl e, h)
                     | Inr b \<Rightarrow> (Inr (BOOL (a < b)), h)))
    | Greater \<Rightarrow>
        (case numArg (at args 0) of
           Inl e \<Rightarrow> (Inl e, h)
         | Inr a \<Rightarrow> (case numArg (at args 1) of
                       Inl e \<Rightarrow> (Inl e, h)
                     | Inr b \<Rightarrow> (Inr (BOOL (a > b)), h)))
    | ListOp \<Rightarrow> (Inr (LIST args), h)
    | Cons \<Rightarrow>
        (case elements_of (at args 1) of
           Inl e \<Rightarrow> (Inl e, h)
         | Inr (Some es) \<Rightarrow> (Inr (LIST (at args 0 # es)), h)
         | Inr None \<Rightarrow> (Inr (LIST [at args 0]), h))
    | Car \<Rightarrow>
        (case elements_of (at args 0) of
           Inl e \<Rightarrow> (Inl e, h)
         | Inr (Some es) \<Rightarrow> (Inr (at es 0), h)
         | Inr None \<Rightarrow> (Inr NULL, h))
    | Cdr \<Rightarrow>
        (case elements_of (at args 0) of
           Inl e \<Rightarrow> (Inl e, h)
         | Inr (Some es) \<Rightarrow> (Inr (LIST (drop 1 es)), h)
         | Inr None \<Rightarrow> (Inr NULL, h))
    | Message \<Rightarrow>
        (case sequence (map (\<lambda>a. case a of UNDEFINED \<Rightarrow> Inl TypeError
                                   | STRING s \<Rightarrow> Inr s
                                   | _ \<Rightarrow> stringify a) args) of
           Inl e \<Rightarrow> (Inl e, h)
         | Inr parts \<Rightarrow> (let msg = join '' '' parts in (Inr (STRING msg), api_message msg h)))
    | Insert \<Rightarrow>
        (case sequence (map value_of args) of
           Inl e \<Rightarrow> (Inl e, h)
         | Inr vals \<Rightarrow> (case sequence (map joinText vals) of
                          Inl e \<Rightarrow> (Inl e, h)
                        | Inr parts \<Rightarrow> (Inr NULL, api_insert (concat parts) h)))
    | BufferName \<Rightarrow> (Inr (STRING (api_currentBufferName h)), h)
    | CurrentBuffer \<Rightarrow> (Inr (STRING (api_currentBufferName h)), h)
    | SwitchToBuffer \<Rightarrow>
        (case value_of (at args 0) of
           Inl e \<Rightarrow> (Inl e, h)
         | Inr (JSstring nm) \<Rightarrow> (Inr (STRING nm), api_switchBuffer nm h)
         | Inr _ \<Rightarrow> (Inl OutsideModel, h))
    | KillBuffer \<Rightarrow>
        (case value_of (at args 0) of
           Inl e \<Rightarrow> (Inl e, h)
         | Inr (JSstring nm) \<Rightarrow>
             (case api_killBuffer nm h of
                (Inl e, h') \<Rightarrow> (Inl e, h')
              | (Inr _, h') \<Rightarrow> (Inr NULL, h'))
         | Inr _ \<Rightarrow> (Inl OutsideModel, h))
    | Point \<Rightarrow> (Inr (NUMBER (Integer (int (api_getCursor h)))), h)
    | PointMin \<Rightarrow> (Inr (NUMBER (Integer 0)), h)
    | PointMax \<Rightarrow> (Inr (NUMBER (Integer (int (length (api_getBufferContent h))))), h)
    | GotoChar \<Rightarrow>
        (case numArg (at args 0) of
           Inl e \<Rightarrow> (Inl e, h)
         | Inr i \<Rightarrow> (Inr (at args 0), api_setCursor i h)))"

definition createGlobalEnv :: LispEnv where
  "createGlobalEnv = LispEnv (map_of
     [(''+'', PRIMITIVE Plus), (''-'', PRIMITIVE Minus), (''*'', PRIMITIVE Times),
      (''/'', PRIMITIVE Divide), (''='', PRIMITIVE NumEq), (''<'', PRIMITIVE Less),
      (''>'', PRIMITIVE Greater),
      (''list'', PRIMITIVE ListOp), (''cons'', PRIMITIVE Cons), (''car'', PRIMITIVE Car),
      (''cdr'', PRIMITIVE Cdr),
      (''message'', PRIMITIVE Message), (''insert'', PRIMITIVE Insert),
      (''buffer-name'', PRIMITIVE BufferName), (''current-buffer'', PRIMITIVE CurrentBuffer),
      (''switch-to-buffer'', PRIMITIVE SwitchToBuffer), (''kill-buffer'', PRIMITIVE KillBuffer),
      (''point'', PRIMITIVE Point), (''point-min'', PRIMITIVE PointMin),
      (''point-max'', PRIMITIVE PointMax), (''goto-char'', PRIMITIVE GotoChar)]) None"

section \<open>Evaluator\<close>

text \<open>
  A run of the evaluator gives a value or a failure, with the environment it ran in and
  the host as it left them; \<open>None\<close> when the call depth bound was reached (the source
  has no step limit: a recursion without a base case ends with the call stack).
\<close>

type_synonym 'a run = "((failure + 'a) \<times> LispEnv \<times> EmacsState) option"

type_synonym evaluator = "LispVal \<Rightarrow> LispEnv \<Rightarrow> EmacsState \<Rightarrow> LispVal run"

definition bind :: "'a run \<Rightarrow> ('a \<Rightarrow> LispEnv \<Rightarrow> EmacsState \<Rightarrow> 'b run) \<Rightarrow> 'b run" where
  "bind m k = (case m of
      None \<Rightarrow> None
    | Some (Inl e, env, h) \<Rightarrow> Some (Inl e, env, h)
    | Some (Inr v, env, h) \<Rightarrow> k v env h)"

definition ret :: "'a \<Rightarrow> LispEnv \<Rightarrow> EmacsState \<Rightarrow> 'a run" where
  "ret v env h = Some (Inr v, env, h)"

definition throw :: "failure \<Rightarrow> LispEnv \<Rightarrow> EmacsState \<Rightarrow> 'a run" where
  "throw e env h = Some (Inl e, env, h)"

text \<open>
  \<^verbatim>\<open>new LispEnv(env.api, env)\<close>, a computation in it, and the return to \<open>env\<close>: the child
  is dropped and the caller goes on with the enclosing environment as the child's
  \<open>outer\<close> holds it.
\<close>

definition inChild ::
  "(string \<rightharpoonup> LispVal) \<Rightarrow> (LispEnv \<Rightarrow> EmacsState \<Rightarrow> 'a run) \<Rightarrow> LispEnv \<Rightarrow> EmacsState \<Rightarrow> 'a run" where
  "inChild newVars body env h =
     (case body (LispEnv newVars (Some env)) h of
        None \<Rightarrow> None
      | Some (r, child, h') \<Rightarrow> Some (r, (case outer child of Some e \<Rightarrow> e | None \<Rightarrow> env), h'))"

text \<open>\<^verbatim>\<open>quote\<close>.\<close>

definition evalQuote :: "LispVal list \<Rightarrow> LispEnv \<Rightarrow> EmacsState \<Rightarrow> LispVal run" where
  "evalQuote elements env h = ret (at elements 1) env h"

text \<open>
  \<^verbatim>\<open>setq\<close>: the loop \<^verbatim>\<open>for (i = 1; i < elements.length; i += 2)\<close>, on the elements from
  index \<open>i\<close> on. With a symbol in the last place, \<^verbatim>\<open>elements[i+1]\<close> is \<^verbatim>\<open>undefined\<close>.
\<close>

fun setqLoop :: "evaluator \<Rightarrow> LispVal list \<Rightarrow> LispVal \<Rightarrow> LispEnv \<Rightarrow> EmacsState \<Rightarrow> LispVal run" where
  "setqLoop ev [] result env h = ret result env h"
| "setqLoop ev [sy] result env h =
     (case sy of
        UNDEFINED \<Rightarrow> throw TypeError env h
      | SYMBOL s \<Rightarrow> bind (ev UNDEFINED env h) (\<lambda>val env' h'. ret val (env_set env' s val) h')
      | _ \<Rightarrow> throw (Error ''setq expects symbols'') env h)"
| "setqLoop ev (sy # e # rest) result env h =
     (case sy of
        UNDEFINED \<Rightarrow> throw TypeError env h
      | SYMBOL s \<Rightarrow>
          bind (ev e env h) (\<lambda>val env' h'. setqLoop ev rest val (env_set env' s val) h')
      | _ \<Rightarrow> throw (Error ''setq expects symbols'') env h)"

definition evalSetq :: "evaluator \<Rightarrow> LispVal list \<Rightarrow> LispEnv \<Rightarrow> EmacsState \<Rightarrow> LispVal run" where
  "evalSetq ev elements env h = setqLoop ev (drop 1 elements) NULL env h"

text \<open>\<^verbatim>\<open>if\<close>.\<close>

definition evalIf :: "evaluator \<Rightarrow> LispVal list \<Rightarrow> LispEnv \<Rightarrow> EmacsState \<Rightarrow> LispVal run" where
  "evalIf ev elements env h =
     bind (ev (at elements 1) env h) (\<lambda>cond env' h'.
       case isTrue cond of
         Inl e \<Rightarrow> throw e env' h'
       | Inr True \<Rightarrow> ev (at elements 2) env' h'
       | Inr False \<Rightarrow>
           if length elements > 3 then ev (at elements 3) env' h' else ret NULL env' h')"

text \<open>
  \<^verbatim>\<open>defun\<close>. \<^verbatim>\<open>elements[1].name\<close> and \<^verbatim>\<open>elements[2].elements.map(e => e.name)\<close> throw on
  \<^verbatim>\<open>undefined\<close>; a name or parameter that is not a symbol is \<^verbatim>\<open>undefined\<close> as a name.
\<close>

definition evalDefun :: "LispVal list \<Rightarrow> LispEnv \<Rightarrow> EmacsState \<Rightarrow> LispVal run" where
  "evalDefun elements env h =
     (case name_of (at elements 1) of
        Inl e \<Rightarrow> throw e env h
      | Inr nm \<Rightarrow>
         (case elements_of (at elements 2) of
            Inl e \<Rightarrow> throw e env h
          | Inr None \<Rightarrow> throw TypeError env h
          | Inr (Some ps) \<Rightarrow>
             (case sequence (map name_of ps) of
                Inl e \<Rightarrow> throw e env h
              | Inr params \<Rightarrow>
                 (case nm of
                    None \<Rightarrow> throw OutsideModel env h
                  | Some fname \<Rightarrow>
                     if list_all (\<lambda>p. p \<noteq> None) params
                     then (let body = LIST (SYMBOL ''progn'' # drop 3 elements);
                               fn = FUNC (map the params) body
                           in ret (SYMBOL fname) (env_define env fname fn) h)
                     else throw OutsideModel env h))))"

text \<open>
  \<^verbatim>\<open>progn\<close>, and the body of \<^verbatim>\<open>let\<close>: the loop \<^verbatim>\<open>result = evalLisp(elements[i], env)\<close> on
  the elements from index \<open>i\<close> on.
\<close>

fun evalBody :: "evaluator \<Rightarrow> LispVal list \<Rightarrow> LispVal \<Rightarrow> LispEnv \<Rightarrow> EmacsState \<Rightarrow> LispVal run" where
  "evalBody ev [] result env h = ret result env h"
| "evalBody ev (e # es) result env h =
     bind (ev e env h) (\<lambda>v env' h'. evalBody ev es v env' h')"

definition evalProgn :: "evaluator \<Rightarrow> LispVal list \<Rightarrow> LispEnv \<Rightarrow> EmacsState \<Rightarrow> LispVal run" where
  "evalProgn ev elements env h = evalBody ev (drop 1 elements) NULL env h"

text \<open>
  \<^verbatim>\<open>let\<close>. \<open>letBindings\<close> is \<^verbatim>\<open>bindings.forEach\<close>: it collects the bindings of the new
  environment while it evaluates each initialiser in \<open>env\<close>.
\<close>

fun letBindings ::
  "evaluator \<Rightarrow> LispVal list \<Rightarrow> (string \<rightharpoonup> LispVal) \<Rightarrow> LispEnv \<Rightarrow> EmacsState \<Rightarrow> (string \<rightharpoonup> LispVal) run" where
  "letBindings ev [] newVars env h = ret newVars env h"
| "letBindings ev (b # bs) newVars env h =
     (case b of
        UNDEFINED \<Rightarrow> throw TypeError env h
      | LIST bes \<Rightarrow>
          (case name_of (at bes 0) of
             Inl e \<Rightarrow> throw e env h
           | Inr None \<Rightarrow> throw OutsideModel env h
           | Inr (Some nm) \<Rightarrow>
               bind (ev (at bes 1) env h) (\<lambda>val env' h'.
                 letBindings ev bs (newVars(nm \<mapsto> val)) env' h'))
      | SYMBOL s \<Rightarrow> letBindings ev bs (newVars(s \<mapsto> NULL)) env h
      | _ \<Rightarrow> letBindings ev bs newVars env h)"

definition evalLet :: "evaluator \<Rightarrow> LispVal list \<Rightarrow> LispEnv \<Rightarrow> EmacsState \<Rightarrow> LispVal run" where
  "evalLet ev elements env h =
     (case elements_of (at elements 1) of
        Inl e \<Rightarrow> throw e env h
      | Inr None \<Rightarrow> throw TypeError env h
      | Inr (Some bindings) \<Rightarrow>
          bind (letBindings ev bindings Map.empty env h) (\<lambda>newVars env' h'.
            inChild newVars (evalBody ev (drop 2 elements) NULL) env' h'))"

text \<open>
  Function application. \<open>evalArgs\<close> is \<^verbatim>\<open>elements.slice(1).map(e => evalLisp(e, env))\<close>;
  \<open>bindParams\<close> is \<^verbatim>\<open>fn.params.forEach((p, i) => define(p, args[i] || mkNull()))\<close>, from
  index \<open>i\<close> on.
\<close>

fun evalArgs :: "evaluator \<Rightarrow> LispVal list \<Rightarrow> LispEnv \<Rightarrow> EmacsState \<Rightarrow> (LispVal list) run" where
  "evalArgs ev [] env h = ret [] env h"
| "evalArgs ev (e # es) env h =
     bind (ev e env h) (\<lambda>v env' h'.
       bind (evalArgs ev es env' h') (\<lambda>vs env'' h''. ret (v # vs) env'' h''))"

definition orNull :: "LispVal \<Rightarrow> LispVal" where
  "orNull v = (if v = UNDEFINED then NULL else v)"

fun bindParams :: "string list \<Rightarrow> nat \<Rightarrow> LispVal list \<Rightarrow> (string \<rightharpoonup> LispVal) \<Rightarrow> (string \<rightharpoonup> LispVal)" where
  "bindParams [] i args m = m"
| "bindParams (p # ps) i args m = bindParams ps (i + 1) args (m(p \<mapsto> orNull (at args i)))"

definition evalApply :: "evaluator \<Rightarrow> LispVal list \<Rightarrow> LispEnv \<Rightarrow> EmacsState \<Rightarrow> LispVal run" where
  "evalApply ev elements env h =
     bind (ev (at elements 0) env h) (\<lambda>fn env1 h1.
       bind (evalArgs ev (drop 1 elements) env1 h1) (\<lambda>args env2 h2.
         case fn of
           UNDEFINED \<Rightarrow> throw TypeError env2 h2
         | PRIMITIVE p \<Rightarrow> (case applyPrimitive p args h2 of (r, h3) \<Rightarrow> Some (r, env2, h3))
         | FUNC params body \<Rightarrow> inChild (bindParams params 0 args Map.empty) (ev body) env2 h2
         | _ \<Rightarrow> (case stringify (at elements 0) of
                  Inl e \<Rightarrow> throw e env2 h2
                | Inr t \<Rightarrow> throw (Error (''Invalid function call: '' @ t)) env2 h2)))"

text \<open>\<^verbatim>\<open>evalLisp\<close>, with the bound on the depth of its calls first.\<close>

fun evalLisp :: "nat \<Rightarrow> LispVal \<Rightarrow> LispEnv \<Rightarrow> EmacsState \<Rightarrow> LispVal run" where
  "evalLisp 0 expr env h = None"
| "evalLisp (Suc k) expr env h =
     (case expr of
        UNDEFINED \<Rightarrow> throw TypeError env h
      | SYMBOL nm \<Rightarrow> Some (env_get env nm, env, h)
      | LIST elements \<Rightarrow>
          if elements = [] then ret NULL env h
          else (case at elements 0 of
                  UNDEFINED \<Rightarrow> throw TypeError env h
                | SYMBOL nm \<Rightarrow>
                    if nm = ''quote'' then evalQuote elements env h
                    else if nm = ''setq'' then evalSetq (evalLisp k) elements env h
                    else if nm = ''if'' then evalIf (evalLisp k) elements env h
                    else if nm = ''defun'' then evalDefun elements env h
                    else if nm = ''progn'' then evalProgn (evalLisp k) elements env h
                    else if nm = ''let'' then evalLet (evalLisp k) elements env h
                    else if nm = ''interactive'' then ret NULL env h
                    else evalApply (evalLisp k) elements env h
                | _ \<Rightarrow> evalApply (evalLisp k) elements env h)
      | _ \<Rightarrow> ret expr env h)"

section \<open>Expression-boundary scanner\<close>

text \<open>
  \<^verbatim>\<open>findLastSexp\<close>. Positions are integers (\<^verbatim>\<open>pos\<close> reaches \<open>-1\<close>); \<open>charAt\<close> is
  \<^verbatim>\<open>text[pos]\<close>, \<^verbatim>\<open>undefined\<close> outside the text, on which both character tests are false.
  \<open>sliceInt\<close> is \<^verbatim>\<open>text.slice(a, b)\<close>, where a negative index counts from the end.
\<close>

definition charAt :: "string \<Rightarrow> int \<Rightarrow> char option" where
  "charAt text pos = (if 0 \<le> pos \<and> pos < int (length text) then Some (text ! nat pos) else None)"

definition isSpaceAt :: "string \<Rightarrow> int \<Rightarrow> bool" where
  "isSpaceAt text pos = (case charAt text pos of Some c \<Rightarrow> isSpace c | None \<Rightarrow> False)"

definition isDelimAt :: "string \<Rightarrow> int \<Rightarrow> bool" where
  "isDelimAt text pos = (case charAt text pos of Some c \<Rightarrow> isDelim c | None \<Rightarrow> False)"

definition sliceInt :: "string \<Rightarrow> int \<Rightarrow> int \<Rightarrow> string" where
  "sliceInt text a b =
     (let len = int (length text);
          from = (if a < 0 then max (len + a) 0 else min a len);
          to = (if b < 0 then max (len + b) 0 else min b len)
      in take (nat (to - from)) (drop (nat from) text))"

function skipBack :: "string \<Rightarrow> int \<Rightarrow> int" where
  "skipBack text pos = (if pos \<ge> 0 \<and> isSpaceAt text pos then skipBack text (pos - 1) else pos)"
  by pat_completeness auto
termination
  by (relation "measure (\<lambda>(text, pos). nat (pos + 1))") auto

declare skipBack.simps [simp del]

text \<open>The loop that looks for the matching \<^verbatim>\<open>(\<close>: the position and depth it ends with.\<close>

function scanOpen :: "string \<Rightarrow> int \<Rightarrow> nat \<Rightarrow> int \<times> nat" where
  "scanOpen text pos depth =
     (if pos \<ge> 0 \<and> depth > 0 then
        (let d1 = (if charAt text pos = Some (CHR '')'') then depth + 1 else depth);
             d2 = (if charAt text pos = Some (CHR ''('') then d1 - 1 else d1)
         in scanOpen text (if d2 > 0 then pos - 1 else pos) d2)
      else (pos, depth))"
  by pat_completeness auto
termination
  by (relation "measure (\<lambda>(text, pos, depth). nat (pos + 1) + (if depth > 0 then 1 else 0))")
     (auto simp: Let_def)

declare scanOpen.simps [simp del]

text \<open>The loop that looks for the opening \<^verbatim>\<open>"\<close>.\<close>

function scanQuote :: "string \<Rightarrow> int \<Rightarrow> int" where
  "scanQuote text pos =
     (if pos \<ge> 0 then
        (if charAt text pos = Some dq \<and> charAt text (pos - 1) \<noteq> Some bslash then pos
         else scanQuote text (pos - 1))
      else pos)"
  by pat_completeness auto
termination
  by (relation "measure (\<lambda>(text, pos). nat (pos + 1))") auto

declare scanQuote.simps [simp del]

function scanAtom :: "string \<Rightarrow> int \<Rightarrow> int" where
  "scanAtom text pos = (if pos \<ge> 0 \<and> \<not> isDelimAt text pos then scanAtom text (pos - 1) else pos)"
  by pat_completeness auto
termination
  by (relation "measure (\<lambda>(text, pos). nat (pos + 1))") auto

declare scanAtom.simps [simp del]

definition findLastSexp :: "string \<Rightarrow> int \<Rightarrow> string option" where
  "findLastSexp text cursor =
     (let pos = skipBack text (cursor - 1) in
      if pos < 0 then None
      else if charAt text pos = Some (CHR '')'') then
        (let end = pos + 1;
             (p, depth) = scanOpen text (pos - 1) 1
         in if depth = 0 then Some (sliceInt text p end) else None)
      else if charAt text pos = Some dq then
        (let end = pos + 1;
             p = scanQuote text (pos - 1)
         in Some (sliceInt text p end))
      else
        (let end = pos + 1;
             p = scanAtom text pos
         in Some (sliceInt text (p + 1) end)))"

section \<open>Sample states\<close>

text \<open>A host whose only buffer is active and empty, with the cursor at offset 0.\<close>

definition emptyScratch :: EmacsState where
  "emptyScratch =
     \<lparr>buffers = [\<lparr>bufferId = ''scratch'', name = ''*scratch*'', content = [],
                    cursorPosition = 0, mode = ''Lisp Interaction'', isModified = False,
                    readOnly = None\<rparr>],
      activeBufferId = ''scratch'', message = []\<rparr>"

section \<open>Reference definitions\<close>

text \<open>
  The backward paren count as the specification words it: starting from the character
  before the closing \<^verbatim>\<open>)\<close> and going backward, \<^verbatim>\<open>)\<close> adds one to the depth and \<^verbatim>\<open>(\<close> takes
  one off; the count stops when the depth is 0. \<open>matchOpen cs depth\<close> reads \<open>cs\<close>, the
  characters before the \<^verbatim>\<open>)\<close> with the nearest first, and gives the number of
  characters up to and including the matching \<^verbatim>\<open>(\<close>, or \<open>None\<close> when the depth never
  reaches 0.
\<close>

fun matchOpen :: "string \<Rightarrow> nat \<Rightarrow> nat option" where
  "matchOpen [] depth = None"
| "matchOpen (c # cs) depth =
     (let d = (if c = CHR '')'' then depth + 1 else if c = CHR ''('' then depth - 1 else depth)
      in if d = 0 then Some 1 else map_option Suc (matchOpen cs d))"

text \<open>
  The bindings of a \<^verbatim>\<open>let\<close> as the specification words them: a variable with its
  initialiser, or a bare variable. \<open>letInits\<close> evaluates the initialisers in order, each
  in the environment the \<^verbatim>\<open>let\<close> is evaluated in, and gives the variables with their
  values, \<open>NULL\<close> for a bare variable.
\<close>

fun bindingForm :: "string \<times> LispVal option \<Rightarrow> LispVal" where
  "bindingForm (v, Some e) = LIST [SYMBOL v, e]"
| "bindingForm (v, None) = SYMBOL v"

fun letInits :: "evaluator \<Rightarrow> (string \<times> LispVal option) list \<Rightarrow> LispEnv \<Rightarrow> EmacsState
    \<Rightarrow> ((string \<times> LispVal) list) run" where
  "letInits ev [] env h = Some (Inr [], env, h)"
| "letInits ev ((v, None) # bs) env h =
     (case letInits ev bs env h of
        None \<Rightarrow> None
      | Some (Inl x, env', h') \<Rightarrow> Some (Inl x, env', h')
      | Some (Inr nvs, env', h') \<Rightarrow> Some (Inr ((v, NULL) # nvs), env', h'))"
| "letInits ev ((v, Some e) # bs) env h =
     (case ev e env h of
        None \<Rightarrow> None
      | Some (Inl x, env1, h1) \<Rightarrow> Some (Inl x, env1, h1)
      | Some (Inr val, env1, h1) \<Rightarrow>
          (case letInits ev bs env1 h1 of
             None \<Rightarrow> None
           | Some (Inl x, env', h') \<Rightarrow> Some (Inl x, env', h')
           | Some (Inr nvs, env', h') \<Rightarrow> Some (Inr ((v, val) # nvs), env', h')))"




section \<open>Truthiness and \<^verbatim>\<open>if\<close>\<close>

lemma isTrue_iff: "v \<noteq> UNDEFINED \<Longrightarrow> isTrue v = Inr (v \<noteq> NULL \<and> v \<noteq> BOOL False)"
  by (cases v) (auto simp: isTrue_def)

lemma parse_if_nil:
  "parse ''(if nil 1 2)'' =
     Some (Inr (LIST [SYMBOL ''if'', NULL, NUMBER (Integer 1), NUMBER (Integer 2)]))"
  by code_simp

lemma parse_if_zero:
  "parse ''(if 0 1 2)'' =
     Some (Inr (LIST [SYMBOL ''if'', NUMBER (Integer 0), NUMBER (Integer 1), NUMBER (Integer 2)]))"
  by code_simp

lemma eval_if_nil:
  "evalLisp (Suc (Suc k)) (LIST [SYMBOL ''if'', NULL, NUMBER (Integer 1), NUMBER (Integer 2)]) env h
     = Some (Inr (NUMBER (Integer 2)), env, h)"
  by (simp add: evalIf_def bind_def ret_def isTrue_def at_def)

lemma eval_if_zero:
  "evalLisp (Suc (Suc k))
     (LIST [SYMBOL ''if'', NUMBER (Integer 0), NUMBER (Integer 1), NUMBER (Integer 2)]) env h
     = Some (Inr (NUMBER (Integer 1)), env, h)"
  by (simp add: evalIf_def bind_def ret_def isTrue_def at_def)

lemma eval_if:
  "evalLisp k c env h = Some (Inr v, env', h') \<Longrightarrow> v \<noteq> UNDEFINED \<Longrightarrow>
   evalLisp (Suc k) (LIST (SYMBOL ''if'' # c # t # rest)) env h =
     (if v = NULL \<or> v = BOOL False
      then (case rest of [] \<Rightarrow> Some (Inr NULL, env', h') | e # _ \<Rightarrow> evalLisp k e env' h')
      else evalLisp k t env' h')"
  by (cases rest) (auto simp: evalIf_def bind_def ret_def isTrue_iff at_def)

text \<open>
  C7. \<open>isTrue\<close> is false exactly on \<open>NULL\<close> and \<open>BOOL False\<close>, on every value. An \<^verbatim>\<open>if\<close>
  whose condition evaluated to \<open>v\<close> goes on with its else-branch when \<open>v\<close> is \<open>NULL\<close> or
  \<open>BOOL False\<close>, giving \<open>NULL\<close> when there is none, and with its then-branch for every
  other \<open>v\<close>. \<^verbatim>\<open>(if nil 1 2)\<close> reads and evaluates to the number 2 and \<^verbatim>\<open>(if 0 1 2)\<close> to
  the number 1, in every environment and host and under every depth bound of at
  least 2.
\<close>

theorem if_truthiness:
  "(\<forall>v. v \<noteq> UNDEFINED \<longrightarrow> isTrue v = Inr (v \<noteq> NULL \<and> v \<noteq> BOOL False))
   \<and> (\<forall>k c t rest env h v env' h'.
        evalLisp k c env h = Some (Inr v, env', h') \<and> v \<noteq> UNDEFINED \<longrightarrow>
        evalLisp (Suc k) (LIST (SYMBOL ''if'' # c # t # rest)) env h =
          (if v = NULL \<or> v = BOOL False
           then (case rest of [] \<Rightarrow> Some (Inr NULL, env', h') | e # _ \<Rightarrow> evalLisp k e env' h')
           else evalLisp k t env' h'))
   \<and> (\<exists>e. parse ''(if nil 1 2)'' = Some (Inr e)
          \<and> (\<forall>k env h. evalLisp (Suc (Suc k)) e env h = Some (Inr (NUMBER (Integer 2)), env, h)))
   \<and> (\<exists>e. parse ''(if 0 1 2)'' = Some (Inr e)
          \<and> (\<forall>k env h. evalLisp (Suc (Suc k)) e env h = Some (Inr (NUMBER (Integer 1)), env, h)))"
proof (intro conjI allI impI)
  fix v :: LispVal assume "v \<noteq> UNDEFINED"
  then show "isTrue v = Inr (v \<noteq> NULL \<and> v \<noteq> BOOL False)" by (rule isTrue_iff)
next
  fix k c t rest env h v env' h'
  assume "evalLisp k c env h = Some (Inr v, env', h') \<and> v \<noteq> UNDEFINED"
  then show "evalLisp (Suc k) (LIST (SYMBOL ''if'' # c # t # rest)) env h =
          (if v = NULL \<or> v = BOOL False
           then (case rest of [] \<Rightarrow> Some (Inr NULL, env', h') | e # _ \<Rightarrow> evalLisp k e env' h')
           else evalLisp k t env' h')"
    using eval_if by blast
next
  show "\<exists>e. parse ''(if nil 1 2)'' = Some (Inr e)
          \<and> (\<forall>k env h. evalLisp (Suc (Suc k)) e env h = Some (Inr (NUMBER (Integer 2)), env, h))"
    using parse_if_nil eval_if_nil by blast
next
  show "\<exists>e. parse ''(if 0 1 2)'' = Some (Inr e)
          \<and> (\<forall>k env h. evalLisp (Suc (Suc k)) e env h = Some (Inr (NUMBER (Integer 1)), env, h))"
    using parse_if_zero eval_if_zero by blast
qed

theorem if_truthiness_witness:
  "isTrue (NUMBER (Integer 0)) = Inr True
   \<and> isTrue (LIST []) = Inr True
   \<and> evalLisp (Suc (Suc 0)) (LIST [SYMBOL ''if'', BOOL False, NUMBER (Integer 1)])
         createGlobalEnv emptyScratch
       = Some (Inr NULL, createGlobalEnv, emptyScratch)
   \<and> evalLisp (Suc (Suc 0)) (LIST [SYMBOL ''if'', NUMBER (Integer 0), NUMBER (Integer 1)])
         createGlobalEnv emptyScratch
       = Some (Inr (NUMBER (Integer 1)), createGlobalEnv, emptyScratch)"
proof -
  have c: "evalLisp (Suc 0) (BOOL False) createGlobalEnv emptyScratch
             = Some (Inr (BOOL False), createGlobalEnv, emptyScratch) \<and> BOOL False \<noteq> UNDEFINED"
    by (simp add: ret_def)
  have z: "evalLisp (Suc 0) (NUMBER (Integer 0)) createGlobalEnv emptyScratch
             = Some (Inr (NUMBER (Integer 0)), createGlobalEnv, emptyScratch)
           \<and> NUMBER (Integer 0) \<noteq> UNDEFINED"
    by (simp add: ret_def)
  have n: "NUMBER (Integer 0) \<noteq> UNDEFINED" "LIST [] \<noteq> UNDEFINED" by simp_all
  have one: "evalLisp (Suc 0) (NUMBER (Integer 1)) createGlobalEnv emptyScratch
             = Some (Inr (NUMBER (Integer 1)), createGlobalEnv, emptyScratch)"
    by (simp add: ret_def)
  note t = if_truthiness [THEN conjunct1, rule_format]
  note i = if_truthiness [THEN conjunct2, THEN conjunct1, rule_format]
  have "isTrue (NUMBER (Integer 0)) = Inr True" using t [OF n(1)] by simp
  moreover have "isTrue (LIST []) = Inr True" using t [OF n(2)] by simp
  moreover have "evalLisp (Suc (Suc 0)) (LIST [SYMBOL ''if'', BOOL False, NUMBER (Integer 1)])
         createGlobalEnv emptyScratch = Some (Inr NULL, createGlobalEnv, emptyScratch)"
    by (subst i [OF c, of "NUMBER (Integer 1)" "[]"]) simp
  moreover have "evalLisp (Suc (Suc 0)) (LIST [SYMBOL ''if'', NUMBER (Integer 0), NUMBER (Integer 1)])
         createGlobalEnv emptyScratch
       = Some (Inr (NUMBER (Integer 1)), createGlobalEnv, emptyScratch)"
    by (subst i [OF z, of "NUMBER (Integer 1)" "[]"]) (simp add: ret_def)
  ultimately show ?thesis by blast
qed

section \<open>\<^verbatim>\<open>car\<close> and \<^verbatim>\<open>cdr\<close>\<close>

text \<open>
  C1, as the source has it. On one argument that is neither a list nor \<^verbatim>\<open>undefined\<close>,
  \<^verbatim>\<open>car\<close> and \<^verbatim>\<open>cdr\<close> give \<open>NULL\<close>. On a non-empty list \<^verbatim>\<open>car\<close> gives the first element and
  \<^verbatim>\<open>cdr\<close> the list of the others. On the empty list \<^verbatim>\<open>cdr\<close> gives the empty list.
\<close>

theorem car_cdr:
  "((\<forall>es. v \<noteq> LIST es) \<and> v \<noteq> UNDEFINED \<longrightarrow>
      applyPrimitive Car [v] h = (Inr NULL, h) \<and> applyPrimitive Cdr [v] h = (Inr NULL, h))
   \<and> applyPrimitive Car [LIST (x # xs)] h = (Inr x, h)
   \<and> applyPrimitive Cdr [LIST (x # xs)] h = (Inr (LIST xs), h)
   \<and> applyPrimitive Cdr [LIST []] h = (Inr (LIST []), h)"
  by (cases v) (simp_all add: applyPrimitive_def at_def)

theorem car_cdr_witness:
  "applyPrimitive Car [NUMBER (Integer 5)] emptyScratch = (Inr NULL, emptyScratch)
   \<and> applyPrimitive Cdr [STRING ''a''] emptyScratch = (Inr NULL, emptyScratch)"
  using car_cdr [of "NUMBER (Integer 5)" emptyScratch]
        car_cdr [of "STRING ''a''" emptyScratch]
  by simp

text \<open>
  The claim as stated fails on the empty list: there \<^verbatim>\<open>cdr\<close> gives the empty list, which
  is not \<open>NULL\<close>.
\<close>

theorem cdr_empty_counterexample:
  "fst (applyPrimitive Cdr [LIST []] emptyScratch) = Inr (LIST [])
   \<and> fst (applyPrimitive Cdr [LIST []] emptyScratch) \<noteq> Inr NULL"
  by (simp add: applyPrimitive_def at_def)

section \<open>The primitive \<^verbatim>\<open>=\<close>\<close>

lemma numeq_no_payload:
  "value_of a = Inr JSundefined \<Longrightarrow> value_of b = Inr JSundefined \<Longrightarrow>
   applyPrimitive NumEq (a # b # rest) h = (Inr (BOOL True), h)"
  by (simp add: applyPrimitive_def at_def)

lemma parse_eq_lists:
  "parse ''(= (quote (1 2)) (quote (3 4 5)))'' =
     Some (Inr (LIST [SYMBOL ''='',
       LIST [SYMBOL ''quote'', LIST [NUMBER (Integer 1), NUMBER (Integer 2)]],
       LIST [SYMBOL ''quote'', LIST [NUMBER (Integer 3), NUMBER (Integer 4), NUMBER (Integer 5)]]]))"
  by code_simp

lemma global_eq: "env_get createGlobalEnv ''='' = Inr (PRIMITIVE NumEq)"
  by (simp add: createGlobalEnv_def)

lemma eval_eq_lists:
  "evalLisp (Suc (Suc k)) (LIST [SYMBOL ''='',
       LIST [SYMBOL ''quote'', LIST [NUMBER (Integer 1), NUMBER (Integer 2)]],
       LIST [SYMBOL ''quote'', LIST [NUMBER (Integer 3), NUMBER (Integer 4), NUMBER (Integer 5)]]]) createGlobalEnv h
   = Some (Inr (BOOL True), createGlobalEnv, h)"
  by (simp add: evalApply_def evalQuote_def bind_def ret_def at_def global_eq applyPrimitive_def)

text \<open>
  C10. \<^verbatim>\<open>=\<close> compares the payloads of its first two arguments with \<^verbatim>\<open>===\<close>. Two
  arguments that are symbols, lists or \<open>NULL\<close>, in any mixture, carry no payload and
  compare equal; \<^verbatim>\<open>(= (quote (1 2)) (quote (3 4 5)))\<close> reads and evaluates to \<open>BOOL True\<close>
  in the global environment, on every host, under every depth bound of at least 2.
\<close>

theorem eq_compares_payloads:
  "(\<forall>a b va vb rest h. value_of a = Inr va \<and> value_of b = Inr vb \<longrightarrow>
       applyPrimitive NumEq (a # b # rest) h = (map_sum id BOOL (strictEq va vb), h))
   \<and> (\<forall>a b rest h.
        ((\<exists>s. a = SYMBOL s) \<or> (\<exists>es. a = LIST es) \<or> a = NULL) \<and>
        ((\<exists>s. b = SYMBOL s) \<or> (\<exists>es. b = LIST es) \<or> b = NULL) \<longrightarrow>
        applyPrimitive NumEq (a # b # rest) h = (Inr (BOOL True), h))
   \<and> (\<exists>e. parse ''(= (quote (1 2)) (quote (3 4 5)))'' = Some (Inr e)
          \<and> (\<forall>k h. evalLisp (Suc (Suc k)) e createGlobalEnv h
                      = Some (Inr (BOOL True), createGlobalEnv, h)))"
proof (intro conjI allI impI)
  fix a b va vb rest h
  assume "value_of a = Inr va \<and> value_of b = Inr vb"
  then show "applyPrimitive NumEq (a # b # rest) h = (map_sum id BOOL (strictEq va vb), h)"
    by (simp add: applyPrimitive_def at_def)
next
  fix a b rest h
  assume "((\<exists>s. a = SYMBOL s) \<or> (\<exists>es. a = LIST es) \<or> a = NULL) \<and>
          ((\<exists>s. b = SYMBOL s) \<or> (\<exists>es. b = LIST es) \<or> b = NULL)"
  then have "value_of a = Inr JSundefined" "value_of b = Inr JSundefined" by auto
  then show "applyPrimitive NumEq (a # b # rest) h = (Inr (BOOL True), h)"
    by (rule numeq_no_payload)
next
  show "\<exists>e. parse ''(= (quote (1 2)) (quote (3 4 5)))'' = Some (Inr e)
          \<and> (\<forall>k h. evalLisp (Suc (Suc k)) e createGlobalEnv h
                      = Some (Inr (BOOL True), createGlobalEnv, h))"
    using parse_eq_lists eval_eq_lists by blast
qed

theorem eq_compares_payloads_witness:
  "applyPrimitive NumEq [SYMBOL ''a'', LIST [NUMBER (Integer 1)]] emptyScratch
     = (Inr (BOOL True), emptyScratch)
   \<and> applyPrimitive NumEq [NUMBER (Integer 1), NUMBER (Integer 2)] emptyScratch
     = (Inr (BOOL False), emptyScratch)"
proof -
  have p: "((\<exists>s. SYMBOL ''a'' = SYMBOL s) \<or> (\<exists>es. SYMBOL ''a'' = LIST es) \<or> SYMBOL ''a'' = NULL) \<and>
        ((\<exists>s. LIST [NUMBER (Integer 1)] = SYMBOL s) \<or> (\<exists>es. LIST [NUMBER (Integer 1)] = LIST es)
          \<or> LIST [NUMBER (Integer 1)] = NULL)"
    by simp
  have v: "value_of (NUMBER (Integer 1)) = Inr (JSnumber (Integer 1))
           \<and> value_of (NUMBER (Integer 2)) = Inr (JSnumber (Integer 2))"
    by simp
  show ?thesis
    using eq_compares_payloads [THEN conjunct2, THEN conjunct1, rule_format, OF p, of "[]" emptyScratch]
      eq_compares_payloads [THEN conjunct1, rule_format, OF v, of "[]" emptyScratch]
    by simp
qed

section \<open>The boundary scanner on a closing parenthesis\<close>

lemma rev_take_Suc: "n < length xs \<Longrightarrow> rev (take (Suc n) xs) = xs ! n # rev (take n xs)"
  by (simp add: take_Suc_conv_app_nth)

lemma scanOpen_matchOpen:
  "0 < depth \<Longrightarrow> n \<le> length text \<Longrightarrow>
   (case matchOpen (rev (take n text)) depth of
      Some k \<Rightarrow> scanOpen text (int n - 1) depth = (int n - int k, 0)
    | None \<Rightarrow> snd (scanOpen text (int n - 1) depth) \<noteq> 0)"
proof (induction n arbitrary: depth)
  case 0
  then show ?case by (simp add: scanOpen.simps)
next
  case (Suc n)
  have n: "n < length text" using Suc.prems by simp
  let ?c = "text ! n"
  let ?d = "if ?c = CHR '')'' then depth + 1 else if ?c = CHR ''('' then depth - 1 else depth"
  have ch: "charAt text (int n) = Some ?c" using n by (simp add: charAt_def)
  have rt: "rev (take (Suc n) text) = ?c # rev (take n text)" using n by (rule rev_take_Suc)
  show ?case
  proof (cases "?d = 0")
    case True
    then have "scanOpen text (int (Suc n) - 1) depth = (int n, 0)"
      using Suc.prems(1) ch
      by (subst scanOpen.simps, subst scanOpen.simps) (auto simp: Let_def split: if_splits)
    then show ?thesis using True rt by (simp add: Let_def)
  next
    case False
    then have d: "0 < ?d" by simp
    have step: "scanOpen text (int (Suc n) - 1) depth = scanOpen text (int n - 1) ?d"
      using Suc.prems(1) ch False
      by (subst scanOpen.simps) (auto simp: Let_def split: if_splits)
    from Suc.IH [OF d] n have IH: "case matchOpen (rev (take n text)) ?d of
      Some k \<Rightarrow> scanOpen text (int n - 1) ?d = (int n - int k, 0)
    | None \<Rightarrow> snd (scanOpen text (int n - 1) ?d) \<noteq> 0" by simp
    show ?thesis
      unfolding step rt using IH False
      by (auto simp: Let_def split: option.splits)
  qed
qed

lemma matchOpen_Some:
  "matchOpen cs depth = Some k \<Longrightarrow> 0 < depth \<Longrightarrow> 0 < k \<and> k \<le> length cs \<and> cs ! (k - 1) = CHR ''(''"
proof (induction cs arbitrary: depth k)
  case Nil
  then show ?case by simp
next
  case (Cons c cs)
  let ?d = "if c = CHR '')'' then depth + 1 else if c = CHR ''('' then depth - 1 else depth"
  show ?case
  proof (cases "?d = 0")
    case True
    then have "k = 1" "c = CHR ''(''" using Cons.prems by (auto simp: Let_def split: if_splits)
    then show ?thesis by simp
  next
    case False
    then obtain j where j: "matchOpen cs ?d = Some j" "k = Suc j"
      using Cons.prems by (auto simp: Let_def split: if_splits)
    from Cons.IH [OF j(1)] False have "0 < j \<and> j \<le> length cs \<and> cs ! (j - 1) = CHR ''(''" by simp
    then show ?thesis using j(2) by (cases j) auto
  qed
qed

lemma skipBack_spaces:
  "pos < cursor \<Longrightarrow> cursor \<le> length text \<Longrightarrow> \<not> isSpace (text ! pos) \<Longrightarrow>
   (\<forall>i. pos < i \<and> i < cursor \<longrightarrow> isSpace (text ! i)) \<Longrightarrow>
   skipBack text (int cursor - 1) = int pos"
proof (induction "cursor - pos" arbitrary: cursor)
  case 0
  then show ?case by simp
next
  case (Suc d)
  show ?case
  proof (cases "cursor = Suc pos")
    case True
    then show ?thesis using Suc.prems
      by (subst skipBack.simps) (simp add: isSpaceAt_def charAt_def)
  next
    case False
    then have lt: "pos < cursor - 1" using Suc.prems by simp
    have sp: "isSpaceAt text (int cursor - 1)"
      using Suc.prems lt by (simp add: isSpaceAt_def charAt_def nat_diff_distrib')
    have "skipBack text (int (cursor - 1) - 1) = int pos"
      using Suc.hyps Suc.prems lt by (intro Suc.hyps(1)) auto
    moreover have "int (cursor - 1) = int cursor - 1" using Suc.prems by simp
    ultimately show ?thesis using sp Suc.prems
      by (subst skipBack.simps) simp
  qed
qed

lemma sliceInt_slice: "a \<le> b \<Longrightarrow> b \<le> length text \<Longrightarrow> sliceInt text (int a) (int b) = slice text a b"
  by (simp add: sliceInt_def slice_def Let_def nat_diff_distrib')

lemma findLastSexp_at_paren:
  assumes "pos < cursor" "cursor \<le> length text" "text ! pos = CHR '')''"
    and "\<forall>i. pos < i \<and> i < cursor \<longrightarrow> isSpace (text ! i)"
  shows "findLastSexp text (int cursor) =
     (case matchOpen (rev (take pos text)) 1 of
        Some k \<Rightarrow> Some (slice text (pos - k) (pos + 1))
      | None \<Rightarrow> None)"
proof -
  have ns: "\<not> isSpace (text ! pos)" using assms(3) by (simp add: isSpace_def)
  have sb: "skipBack text (int cursor - 1) = int pos"
    by (rule skipBack_spaces [OF assms(1) assms(2) ns assms(4)])
  have ch: "charAt text (int pos) = Some (CHR '')'')"
    using assms by (simp add: charAt_def)
  have le: "pos \<le> length text" using assms by simp
  have so: "(\<forall>k. matchOpen (rev (take pos text)) 1 = Some k \<longrightarrow> scanOpen text (int pos - 1) 1 = (int pos - int k, 0))
     \<and> (matchOpen (rev (take pos text)) 1 = None \<longrightarrow> snd (scanOpen text (int pos - 1) 1) \<noteq> 0)"
    using scanOpen_matchOpen [of 1 pos "text"] le by (simp split: option.splits)
  show ?thesis
  proof (cases "matchOpen (rev (take pos text)) 1")
    case None
    then have "snd (scanOpen text (int pos - 1) 1) \<noteq> 0" using so by simp
    then show ?thesis using None sb ch
      by (auto simp: findLastSexp_def Let_def split: prod.splits)
  next
    case (Some k)
    then have s: "scanOpen text (int pos - 1) 1 = (int pos - int k, 0)" using so by simp
    from matchOpen_Some [OF Some] have k: "0 < k" "k \<le> pos" using le by auto
    have e1: "int pos - int k = int (pos - k)" using k by simp
    have e2: "int pos + 1 = int (pos + 1)" by simp
    have le2: "pos - k \<le> pos + 1" "pos + 1 \<le> length text" using assms by simp_all
    have "sliceInt text (int pos - int k) (int pos + 1) = slice text (pos - k) (pos + 1)"
      unfolding e1 e2 by (rule sliceInt_slice [OF le2])
    then show ?thesis using Some sb ch s
      by (simp add: findLastSexp_def Let_def)
  qed
qed

lemma matched_paren:
  assumes "matchOpen (rev (take pos text)) 1 = Some k" "pos \<le> length text"
  shows "k \<le> pos \<and> 0 < k \<and> text ! (pos - k) = CHR ''(''"
proof -
  from matchOpen_Some [OF assms(1)] have k: "0 < k" "k \<le> pos" "rev (take pos text) ! (k - 1) = CHR ''(''"
    using assms(2) by auto
  have "rev (take pos text) ! (k - 1) = take pos text ! (pos - k)"
    using k assms(2) by (simp add: rev_nth)
  then show ?thesis using k by simp
qed

lemma findLastSexp_whole: "findLastSexp ''(foo (bar 1))'' 13 = Some ''(foo (bar 1))''"
  by code_simp

lemma findLastSexp_atom: "findLastSexp ''foo bar'' 7 = Some ''bar''"
  by code_simp

text \<open>
  C9. Let \<open>pos\<close> be the position of a \<^verbatim>\<open>)\<close> in the text and let only whitespace lie
  between it and the cursor. Then \<open>findLastSexp\<close> gives the text from the \<^verbatim>\<open>(\<close> that the
  backward depth count matches, through that \<^verbatim>\<open>)\<close>, and nothing when the depth never
  reaches 0. On \<^verbatim>\<open>(foo (bar 1))\<close> with the cursor at the end it gives the whole text, on
  \<^verbatim>\<open>foo bar\<close> with the cursor at the end it gives \<^verbatim>\<open>bar\<close>.
\<close>

theorem findLastSexp_paren:
  "(\<forall>text cursor pos.
      pos < cursor \<and> cursor \<le> length text \<and> text ! pos = CHR '')'' \<and>
      (\<forall>i. pos < i \<and> i < cursor \<longrightarrow> isSpace (text ! i)) \<longrightarrow>
      findLastSexp text (int cursor) =
        (case matchOpen (rev (take pos text)) 1 of
           Some k \<Rightarrow> Some (slice text (pos - k) (pos + 1))
         | None \<Rightarrow> None)
      \<and> (\<forall>k. matchOpen (rev (take pos text)) 1 = Some k \<longrightarrow>
             k \<le> pos \<and> 0 < k \<and> text ! (pos - k) = CHR ''(''))
   \<and> findLastSexp ''(foo (bar 1))'' 13 = Some ''(foo (bar 1))''
   \<and> findLastSexp ''foo bar'' 7 = Some ''bar''"
proof (intro conjI)
  show "\<forall>tx cursor pos.
      pos < cursor \<and> cursor \<le> length tx \<and> tx ! pos = CHR '')'' \<and>
      (\<forall>i. pos < i \<and> i < cursor \<longrightarrow> isSpace (tx ! i)) \<longrightarrow>
      findLastSexp tx (int cursor) =
        (case matchOpen (rev (take pos tx)) 1 of
           Some k \<Rightarrow> Some (slice tx (pos - k) (pos + 1))
         | None \<Rightarrow> None)
      \<and> (\<forall>k. matchOpen (rev (take pos tx)) 1 = Some k \<longrightarrow>
             k \<le> pos \<and> 0 < k \<and> tx ! (pos - k) = CHR ''('')"
  proof (intro allI impI)
    fix tx :: "char list"
    fix cursor pos :: nat
    assume a: "pos < cursor \<and> cursor \<le> length tx \<and> tx ! pos = CHR '')'' \<and>
      (\<forall>i. pos < i \<and> i < cursor \<longrightarrow> isSpace (tx ! i))"
    then have "findLastSexp tx (int cursor) =
        (case matchOpen (rev (take pos tx)) 1 of
           Some k \<Rightarrow> Some (slice tx (pos - k) (pos + 1))
         | None \<Rightarrow> None)"
      by (intro findLastSexp_at_paren) auto
    moreover have "\<forall>k. matchOpen (rev (take pos tx)) 1 = Some k \<longrightarrow>
             k \<le> pos \<and> 0 < k \<and> tx ! (pos - k) = CHR ''(''"
      using a matched_paren [of pos tx] by auto
    ultimately show "findLastSexp tx (int cursor) =
        (case matchOpen (rev (take pos tx)) 1 of
           Some k \<Rightarrow> Some (slice tx (pos - k) (pos + 1))
         | None \<Rightarrow> None)
      \<and> (\<forall>k. matchOpen (rev (take pos tx)) 1 = Some k \<longrightarrow>
             k \<le> pos \<and> 0 < k \<and> tx ! (pos - k) = CHR ''('')"
      by blast
  qed
next
  show "findLastSexp ''(foo (bar 1))'' 13 = Some ''(foo (bar 1))''" by (rule findLastSexp_whole)
next
  show "findLastSexp ''foo bar'' 7 = Some ''bar''" by (rule findLastSexp_atom)
qed

theorem findLastSexp_paren_witness:
  "findLastSexp ''x (a (b)) '' 10 = Some ''(a (b))''
   \<and> findLastSexp ''a) '' 3 = None"
proof -
  have h1: "(8::nat) < 10 \<and> 10 \<le> length ''x (a (b)) '' \<and> ''x (a (b)) '' ! 8 = CHR '')'' \<and>
      (\<forall>i. 8 < i \<and> i < 10 \<longrightarrow> isSpace (''x (a (b)) '' ! i))"
  proof (intro conjI allI impI)
    fix i :: nat assume "8 < i \<and> i < 10"
    then have "i = 9" by arith
    then show "isSpace (''x (a (b)) '' ! i)" by (simp add: isSpace_def)
  qed simp_all
  have h2: "(1::nat) < 3 \<and> 3 \<le> length ''a) '' \<and> ''a) '' ! 1 = CHR '')'' \<and>
      (\<forall>i. 1 < i \<and> i < 3 \<longrightarrow> isSpace (''a) '' ! i))"
  proof (intro conjI allI impI)
    fix i :: nat assume "1 < i \<and> i < 3"
    then have "i = 2" by arith
    then show "isSpace (''a) '' ! i)" by (simp add: isSpace_def)
  qed simp_all
  note g = findLastSexp_paren [THEN conjunct1, rule_format]
  show ?thesis
    using g [OF h1, THEN conjunct1] g [OF h2, THEN conjunct1]
    by (simp add: slice_def Let_def)
qed

section \<open>Chained inserts\<close>

lemma findIndex_Some:
  "findIndex P xs = Some i \<Longrightarrow> i < length xs \<and> P (xs ! i)"
  by (induction xs arbitrary: i) (auto split: if_splits)

lemma findIndex_update:
  "findIndex P xs = Some i \<Longrightarrow> P y \<Longrightarrow> findIndex P (xs[i := y]) = Some i"
  by (induction xs arbitrary: i) (auto split: if_splits)

lemma api_insert_at:
  assumes "findIndex (\<lambda>b. bufferId b = activeBufferId h) (buffers h) = Some i"
  shows "api_insert text h = h\<lparr>buffers := (buffers h)[i := (buffers h ! i)\<lparr>
            content := take (cursorPosition (buffers h ! i)) (content (buffers h ! i)) @ text
                       @ drop (cursorPosition (buffers h ! i)) (content (buffers h ! i)),
            cursorPosition := cursorPosition (buffers h ! i) + length text,
            isModified := True\<rparr>]\<rparr>"
  using assms by (simp add: api_insert_def Let_def)

lemma api_insert_active:
  assumes "findIndex (\<lambda>b. bufferId b = activeBufferId h) (buffers h) = Some i"
  shows "findIndex (\<lambda>b. bufferId b = activeBufferId (api_insert text h)) (buffers (api_insert text h)) = Some i
    \<and> content (buffers (api_insert text h) ! i) =
        take (cursorPosition (buffers h ! i)) (content (buffers h ! i)) @ text
                       @ drop (cursorPosition (buffers h ! i)) (content (buffers h ! i))
    \<and> cursorPosition (buffers (api_insert text h) ! i) = cursorPosition (buffers h ! i) + length text"
proof -
  from findIndex_Some [OF assms] have i: "i < length (buffers h)" "bufferId (buffers h ! i) = activeBufferId h" by auto
  show ?thesis
    unfolding api_insert_at [OF assms] using i assms
    by (simp add: findIndex_update)
qed

lemma parse_inserts:
  "parse ''(progn (insert \"A\") (insert \"B\") (insert \"C\"))'' =
     Some (Inr (LIST [SYMBOL ''progn'', LIST [SYMBOL ''insert'', STRING ''A''],
                      LIST [SYMBOL ''insert'', STRING ''B''],
                      LIST [SYMBOL ''insert'', STRING ''C'']]))"
  by code_simp

lemma global_insert: "env_get createGlobalEnv ''insert'' = Inr (PRIMITIVE Insert)"
  by (simp add: createGlobalEnv_def)

lemma eval_insert:
  "evalLisp (Suc (Suc k)) (LIST [SYMBOL ''insert'', STRING s]) createGlobalEnv h
     = Some (Inr NULL, createGlobalEnv, api_insert s h)"
  by (simp add: evalApply_def bind_def ret_def at_def global_insert applyPrimitive_def)

lemma eval_inserts:
  "evalLisp (Suc (Suc (Suc k)))
     (LIST [SYMBOL ''progn'', LIST [SYMBOL ''insert'', STRING ''A''],
            LIST [SYMBOL ''insert'', STRING ''B''], LIST [SYMBOL ''insert'', STRING ''C'']])
     createGlobalEnv h
   = Some (Inr NULL, createGlobalEnv, api_insert ''C'' (api_insert ''B'' (api_insert ''A'' h)))"
  using eval_insert [of k]
  by (simp add: evalProgn_def bind_def ret_def at_def)

text \<open>
  C3. On a host whose active buffer is empty with the cursor at offset 0,
  \<^verbatim>\<open>(progn (insert "A") (insert "B") (insert "C"))\<close> reads and evaluates, in the global
  environment and under every depth bound of at least 3, to a host whose active buffer
  is the same buffer with content \<^verbatim>\<open>ABC\<close> and the cursor at offset 3. Each insert puts
  its text at the cursor of the active buffer and moves the cursor on by the length of
  the text.
\<close>

theorem insert_chain:
  "(\<forall>h i. findIndex (\<lambda>b. bufferId b = activeBufferId h) (buffers h) = Some i \<and>
          content (buffers h ! i) = [] \<and> cursorPosition (buffers h ! i) = 0 \<longrightarrow>
      (\<exists>e. parse ''(progn (insert \"A\") (insert \"B\") (insert \"C\"))'' = Some (Inr e) \<and>
        (\<forall>k. \<exists>h'. evalLisp (Suc (Suc (Suc k))) e createGlobalEnv h
                     = Some (Inr NULL, createGlobalEnv, h') \<and>
               findIndex (\<lambda>b. bufferId b = activeBufferId h') (buffers h') = Some i \<and>
               content (buffers h' ! i) = ''ABC'' \<and> cursorPosition (buffers h' ! i) = 3)))
   \<and> (\<forall>h i s. findIndex (\<lambda>b. bufferId b = activeBufferId h) (buffers h) = Some i \<longrightarrow>
         findIndex (\<lambda>b. bufferId b = activeBufferId (api_insert s h)) (buffers (api_insert s h))
           = Some i \<and>
         content (buffers (api_insert s h) ! i) =
           take (cursorPosition (buffers h ! i)) (content (buffers h ! i)) @ s
             @ drop (cursorPosition (buffers h ! i)) (content (buffers h ! i)) \<and>
         cursorPosition (buffers (api_insert s h) ! i) = cursorPosition (buffers h ! i) + length s)"
proof (intro conjI)
  show "\<forall>h i. findIndex (\<lambda>b. bufferId b = activeBufferId h) (buffers h) = Some i \<and>
          content (buffers h ! i) = [] \<and> cursorPosition (buffers h ! i) = 0 \<longrightarrow>
      (\<exists>e. parse ''(progn (insert \"A\") (insert \"B\") (insert \"C\"))'' = Some (Inr e) \<and>
        (\<forall>k. \<exists>h'. evalLisp (Suc (Suc (Suc k))) e createGlobalEnv h
                     = Some (Inr NULL, createGlobalEnv, h') \<and>
               findIndex (\<lambda>b. bufferId b = activeBufferId h') (buffers h') = Some i \<and>
               content (buffers h' ! i) = ''ABC'' \<and> cursorPosition (buffers h' ! i) = 3))"
  proof (intro allI impI)
    fix h :: EmacsState
    fix i :: nat
    assume a: "findIndex (\<lambda>b. bufferId b = activeBufferId h) (buffers h) = Some i \<and>
          content (buffers h ! i) = [] \<and> cursorPosition (buffers h ! i) = 0"
    let ?h1 = "api_insert ''A'' h"
    let ?h2 = "api_insert ''B'' ?h1"
    let ?h3 = "api_insert ''C'' ?h2"
    from a have a0: "findIndex (\<lambda>b. bufferId b = activeBufferId h) (buffers h) = Some i" by simp
    note s1 = api_insert_active [OF a0, of "''A''"]
    note s2 = api_insert_active [OF s1 [THEN conjunct1], of "''B''"]
    note s3 = api_insert_active [OF s2 [THEN conjunct1], of "''C''"]
    have c1: "content (buffers ?h1 ! i) = ''A''" "cursorPosition (buffers ?h1 ! i) = 1"
      using s1 a by simp_all
    have c2: "content (buffers ?h2 ! i) = ''AB''" "cursorPosition (buffers ?h2 ! i) = 2"
      using s2 c1 by simp_all
    have c3: "content (buffers ?h3 ! i) = ''ABC''" "cursorPosition (buffers ?h3 ! i) = 3"
      using s3 c2 by simp_all
    show "\<exists>e. parse ''(progn (insert \"A\") (insert \"B\") (insert \"C\"))'' = Some (Inr e) \<and>
        (\<forall>k. \<exists>h'. evalLisp (Suc (Suc (Suc k))) e createGlobalEnv h
                     = Some (Inr NULL, createGlobalEnv, h') \<and>
               findIndex (\<lambda>b. bufferId b = activeBufferId h') (buffers h') = Some i \<and>
               content (buffers h' ! i) = ''ABC'' \<and> cursorPosition (buffers h' ! i) = 3)"
      using parse_inserts eval_inserts s3 [THEN conjunct1] c3 by blast
  qed
next
  show "\<forall>h i s. findIndex (\<lambda>b. bufferId b = activeBufferId h) (buffers h) = Some i \<longrightarrow>
         findIndex (\<lambda>b. bufferId b = activeBufferId (api_insert s h)) (buffers (api_insert s h))
           = Some i \<and>
         content (buffers (api_insert s h) ! i) =
           take (cursorPosition (buffers h ! i)) (content (buffers h ! i)) @ s
             @ drop (cursorPosition (buffers h ! i)) (content (buffers h ! i)) \<and>
         cursorPosition (buffers (api_insert s h) ! i) = cursorPosition (buffers h ! i) + length s"
    using api_insert_active by blast
qed

theorem insert_chain_witness:
  "\<exists>e h'. parse ''(progn (insert \"A\") (insert \"B\") (insert \"C\"))'' = Some (Inr e) \<and>
      evalLisp (Suc (Suc (Suc 0))) e createGlobalEnv emptyScratch
        = Some (Inr NULL, createGlobalEnv, h') \<and>
      content (buffers h' ! 0) = ''ABC'' \<and> cursorPosition (buffers h' ! 0) = 3"
proof -
  have a: "findIndex (\<lambda>b. bufferId b = activeBufferId emptyScratch) (buffers emptyScratch) = Some 0 \<and>
          content (buffers emptyScratch ! 0) = [] \<and> cursorPosition (buffers emptyScratch ! 0) = 0"
    by (simp add: emptyScratch_def)
  show ?thesis
    using insert_chain [THEN conjunct1, rule_format, OF a] by blast
qed

section \<open>The enclosing environments are left alone\<close>

lemma bind_Some:
  "bind m k = Some (r, env', h') \<Longrightarrow>
     (\<exists>e. m = Some (Inl e, env', h') \<and> r = Inl e) \<or>
     (\<exists>v env1 h1. m = Some (Inr v, env1, h1) \<and> k v env1 h1 = Some (r, env', h'))"
  by (auto simp: bind_def split: option.splits sum.splits prod.splits)

lemma env_set_outer [simp]: "outer (env_set env nm v) = outer env"
  by (simp add: env_set_def)

lemma env_define_outer [simp]: "outer (env_define env nm v) = outer env"
  by (simp add: env_define_def)

lemma setqLoop_outer:
  "(\<And>e env h r env' h'. ev e env h = Some (r, env', h') \<Longrightarrow> outer env' = outer env) \<Longrightarrow>
   setqLoop ev es res env h = Some (r, env', h') \<Longrightarrow> outer env' = outer env"
proof (induction ev es res env h rule: setqLoop.induct)
  case (1 ev result env h)
  then show ?case by (simp add: ret_def)
next
  case (2 ev sy result env h)
  show ?case
  proof (cases sy)
    case (SYMBOL s)
    with "2.prems"(2) have "bind (ev UNDEFINED env h) (\<lambda>val env' h'. ret val (env_set env' s val) h')
       = Some (r, env', h')" by simp
    from bind_Some [OF this] show ?thesis
      using "2.prems"(1) by (auto simp: ret_def)
  qed (use "2.prems"(2) in \<open>auto simp: throw_def\<close>)
next
  case (3 ev sy e rest result env h)
  show ?case
  proof (cases sy)
    case (SYMBOL s)
    with "3.prems"(2) have "bind (ev e env h)
        (\<lambda>val env' h'. setqLoop ev rest val (env_set env' s val) h') = Some (r, env', h')" by simp
    from bind_Some [OF this] show ?thesis
    proof (elim disjE exE conjE)
      fix x assume "ev e env h = Some (Inl x, env', h')"
      then show ?thesis by (rule "3.prems"(1))
    next
      fix v env1 h1
      assume a: "ev e env h = Some (Inr v, env1, h1)"
        and b: "setqLoop ev rest v (env_set env1 s v) h1 = Some (r, env', h')"
      have "outer env' = outer (env_set env1 s v)"
        using "3.IH" [OF SYMBOL "3.prems"(1) b] .
      then show ?thesis using "3.prems"(1) [OF a] by simp
    qed
  qed (use "3.prems"(2) in \<open>auto simp: throw_def\<close>)
qed

lemma evalBody_outer:
  "(\<And>e env h r env' h'. ev e env h = Some (r, env', h') \<Longrightarrow> outer env' = outer env) \<Longrightarrow>
   evalBody ev es res env h = Some (r, env', h') \<Longrightarrow> outer env' = outer env"
proof (induction es arbitrary: res env h)
  case Nil
  then show ?case by (simp add: ret_def)
next
  case (Cons e es)
  from Cons.prems(2) have "bind (ev e env h) (\<lambda>v env' h'. evalBody ev es v env' h') = Some (r, env', h')"
    by simp
  from bind_Some [OF this] show ?case
  proof (elim disjE exE conjE)
    fix x assume "ev e env h = Some (Inl x, env', h')"
    then show ?thesis by (rule Cons.prems(1))
  next
    fix v env1 h1
    assume a: "ev e env h = Some (Inr v, env1, h1)"
      and b: "evalBody ev es v env1 h1 = Some (r, env', h')"
    have "outer env' = outer env1" using Cons.IH [OF Cons.prems(1) b] .
    then show ?thesis using Cons.prems(1) [OF a] by simp
  qed
qed

lemma evalArgs_outer:
  "(\<And>e env h r env' h'. ev e env h = Some (r, env', h') \<Longrightarrow> outer env' = outer env) \<Longrightarrow>
   evalArgs ev es env h = Some (r, env', h') \<Longrightarrow> outer env' = outer env"
proof (induction es arbitrary: r env h)
  case Nil
  then show ?case by (simp add: ret_def)
next
  case (Cons e es)
  from Cons.prems(2) have "bind (ev e env h) (\<lambda>v env' h'.
       bind (evalArgs ev es env' h') (\<lambda>vs env'' h''. ret (v # vs) env'' h'')) = Some (r, env', h')"
    by simp
  from bind_Some [OF this] show ?case
  proof (elim disjE exE conjE)
    fix x assume "ev e env h = Some (Inl x, env', h')"
    then show ?thesis by (rule Cons.prems(1))
  next
    fix v env1 h1
    assume a: "ev e env h = Some (Inr v, env1, h1)"
      and b: "bind (evalArgs ev es env1 h1) (\<lambda>vs env'' h''. ret (v # vs) env'' h'') = Some (r, env', h')"
    from bind_Some [OF b] have "\<exists>r'. evalArgs ev es env1 h1 = Some (r', env', h')"
      by (auto simp: ret_def)
    then obtain r' where c: "evalArgs ev es env1 h1 = Some (r', env', h')" ..
    have "outer env' = outer env1" using Cons.IH [OF Cons.prems(1) c] .
    then show ?thesis using Cons.prems(1) [OF a] by simp
  qed
qed

lemma letBindings_outer:
  "(\<And>e env h r env' h'. ev e env h = Some (r, env', h') \<Longrightarrow> outer env' = outer env) \<Longrightarrow>
   letBindings ev bs m env h = Some (r, env', h') \<Longrightarrow> outer env' = outer env"
proof (induction bs arbitrary: m env h)
  case Nil
  then show ?case by (simp add: ret_def)
next
  case (Cons b bs)
  show ?case
  proof (cases b)
    case (LIST bes)
    show ?thesis
    proof (cases "name_of (at bes 0)")
      case (Inl x)
      then show ?thesis using Cons.prems(2) LIST by (simp add: throw_def)
    next
      case (Inr nmo)
      show ?thesis
      proof (cases nmo)
        case None
        then show ?thesis using Cons.prems(2) LIST Inr by (simp add: throw_def)
      next
        case (Some nm)
        with Cons.prems(2) LIST Inr have "bind (ev (at bes 1) env h) (\<lambda>val env' h'.
                 letBindings ev bs (m(nm \<mapsto> val)) env' h') = Some (r, env', h')" by simp
        from bind_Some [OF this] show ?thesis
        proof (elim disjE exE conjE)
          fix x assume "ev (at bes 1) env h = Some (Inl x, env', h')"
          then show ?thesis by (rule Cons.prems(1))
        next
          fix v env1 h1
          assume a: "ev (at bes 1) env h = Some (Inr v, env1, h1)"
            and b: "letBindings ev bs (m(nm \<mapsto> v)) env1 h1 = Some (r, env', h')"
          have "outer env' = outer env1" using Cons.IH [OF Cons.prems(1) b] .
          then show ?thesis using Cons.prems(1) [OF a] by simp
        qed
      qed
    qed
  qed (use Cons in \<open>auto simp: throw_def\<close>)
qed

lemma inChild_env:
  "(\<And>c h r c' h'. body c h = Some (r, c', h') \<Longrightarrow> outer c' = outer c) \<Longrightarrow>
   inChild vs body env h = Some (r, env', h') \<Longrightarrow> env' = env"
  by (auto simp: inChild_def split: option.splits prod.splits)

lemma inChild_eq:
  "(\<And>c h r c' h'. body c h = Some (r, c', h') \<Longrightarrow> outer c' = outer c) \<Longrightarrow>
   inChild vs body env h =
     (case body (LispEnv vs (Some env)) h of None \<Rightarrow> None | Some (r, c', h') \<Rightarrow> Some (r, env, h'))"
  by (auto simp: inChild_def split: option.splits prod.splits)

lemma evalIf_outer:
  assumes ev: "\<And>e env h r env' h'. ev e env h = Some (r, env', h') \<Longrightarrow> outer env' = outer env"
    and run: "evalIf ev es env h = Some (r, env', h')"
  shows "outer env' = outer env"
proof -
  from run have "bind (ev (at es 1) env h) (\<lambda>cond env' h'.
       case isTrue cond of
         Inl e \<Rightarrow> throw e env' h'
       | Inr True \<Rightarrow> ev (at es 2) env' h'
       | Inr False \<Rightarrow>
           if length es > 3 then ev (at es 3) env' h' else ret NULL env' h') = Some (r, env', h')"
    by (simp add: evalIf_def)
  from bind_Some [OF this] show ?thesis
  proof (elim disjE exE conjE)
    fix x assume "ev (at es 1) env h = Some (Inl x, env', h')"
    then show ?thesis by (rule ev)
  next
    fix v env1 h1
    assume a: "ev (at es 1) env h = Some (Inr v, env1, h1)"
      and b: "(case isTrue v of
         Inl e \<Rightarrow> throw e env1 h1
       | Inr True \<Rightarrow> ev (at es 2) env1 h1
       | Inr False \<Rightarrow>
           if length es > 3 then ev (at es 3) env1 h1 else ret NULL env1 h1) = Some (r, env', h')"
    have "outer env' = outer env1"
      using b ev by (auto simp: throw_def ret_def split: sum.splits bool.splits if_splits)
    then show ?thesis using ev [OF a] by simp
  qed
qed

lemma evalDefun_outer:
  "evalDefun es env h = Some (r, env', h') \<Longrightarrow> outer env' = outer env"
  by (auto simp: evalDefun_def throw_def ret_def Let_def
           split: sum.splits option.splits if_splits)

lemma evalLet_env:
  assumes ev: "\<And>e env h r env' h'. ev e env h = Some (r, env', h') \<Longrightarrow> outer env' = outer env"
    and run: "evalLet ev es env h = Some (r, env', h')"
  shows "outer env' = outer env"
proof (cases "elements_of (at es 1)")
  case (Inl x)
  then show ?thesis using run by (simp add: evalLet_def throw_def)
next
  case (Inr bo)
  have lb: "outer e1 = outer e0"
    if "letBindings ev bs m e0 h0 = Some (r0, e1, h1)" for bs m e0 h0 r0 e1 h1
    using that by (rule letBindings_outer [rotated]) (rule ev)
  have eb: "outer e1 = outer e0"
    if "evalBody ev bs v e0 h0 = Some (r0, e1, h1)" for bs v e0 h0 r0 e1 h1
    using that by (rule evalBody_outer [rotated]) (rule ev)
  show ?thesis
  proof (cases bo)
    case None
    then show ?thesis using run Inr by (simp add: evalLet_def throw_def)
  next
    case (Some bindings)
    with run Inr have "bind (letBindings ev bindings Map.empty env h) (\<lambda>newVars env' h'.
            inChild newVars (evalBody ev (drop 2 es) NULL) env' h') = Some (r, env', h')"
      by (simp add: evalLet_def)
    from bind_Some [OF this] show ?thesis
    proof (elim disjE exE conjE)
      fix x assume "letBindings ev bindings Map.empty env h = Some (Inl x, env', h')"
      then show ?thesis by (rule lb)
    next
      fix vs env1 h1
      assume a: "letBindings ev bindings Map.empty env h = Some (Inr vs, env1, h1)"
        and b: "inChild vs (evalBody ev (drop 2 es) NULL) env1 h1 = Some (r, env', h')"
      have "env' = env1"
        using b by (rule inChild_env [rotated]) (rule eb)
      then show ?thesis using lb [OF a] by simp
    qed
  qed
qed

lemma evalApply_outer:
  assumes ev: "\<And>e env h r env' h'. ev e env h = Some (r, env', h') \<Longrightarrow> outer env' = outer env"
    and run: "evalApply ev es env h = Some (r, env', h')"
  shows "outer env' = outer env"
proof -
  have ea: "outer e1 = outer e0"
    if "evalArgs ev xs e0 h0 = Some (r0, e1, h1)" for xs e0 h0 r0 e1 h1
    using that by (rule evalArgs_outer [rotated]) (rule ev)
  let ?k2 = "\<lambda>fn args env2 h2.
         case fn of
           UNDEFINED \<Rightarrow> throw TypeError env2 h2
         | PRIMITIVE p \<Rightarrow> (case applyPrimitive p args h2 of (r, h3) \<Rightarrow> Some (r, env2, h3))
         | FUNC params body \<Rightarrow> inChild (bindParams params 0 args Map.empty) (ev body) env2 h2
         | _ \<Rightarrow> (case stringify (at es 0) of
                  Inl e \<Rightarrow> throw e env2 h2
                | Inr t \<Rightarrow> throw (Error (''Invalid function call: '' @ t)) env2 h2)"
  from run have "bind (ev (at es 0) env h) (\<lambda>fn env1 h1.
       bind (evalArgs ev (drop 1 es) env1 h1) (?k2 fn)) = Some (r, env', h')"
    by (simp add: evalApply_def)
  from bind_Some [OF this] show ?thesis
  proof (elim disjE exE conjE)
    fix x assume "ev (at es 0) env h = Some (Inl x, env', h')"
    then show ?thesis by (rule ev)
  next
    fix fn env1 h1
    assume a: "ev (at es 0) env h = Some (Inr fn, env1, h1)"
      and b: "bind (evalArgs ev (drop 1 es) env1 h1) (?k2 fn) = Some (r, env', h')"
    have "outer env' = outer env1"
      using bind_Some [OF b]
    proof (elim disjE exE conjE)
      fix x assume "evalArgs ev (drop 1 es) env1 h1 = Some (Inl x, env', h')"
      then show ?thesis by (rule ea)
    next
      fix args env2 h2
      assume c: "evalArgs ev (drop 1 es) env1 h1 = Some (Inr args, env2, h2)"
        and d: "?k2 fn args env2 h2 = Some (r, env', h')"
      have "env' = env2"
      proof (cases fn)
        case (FUNC params body)
        with d have "inChild (bindParams params 0 args Map.empty) (ev body) env2 h2 = Some (r, env', h')"
          by simp
        then show ?thesis by (rule inChild_env [rotated]) (rule ev)
      qed (use d in \<open>auto simp: throw_def split: sum.splits prod.splits\<close>)
      then show ?thesis using ea [OF c] by simp
    qed
    then show ?thesis using ev [OF a] by simp
  qed
qed

lemma evalLisp_outer:
  "evalLisp k expr env h = Some (r, env', h') \<Longrightarrow> outer env' = outer env"
proof (induction k arbitrary: expr env h r env' h')
  case 0
  then show ?case by simp
next
  case (Suc k)
  have ev: "\<And>e env h r env' h'. evalLisp k e env h = Some (r, env', h') \<Longrightarrow> outer env' = outer env"
    by (rule Suc.IH)
  have f1: "outer e1 = outer e0"
    if "setqLoop (evalLisp k) xs v e0 h0 = Some (r0, e1, h1)" for xs v e0 h0 r0 e1 h1
    using that by (rule setqLoop_outer [rotated]) (rule ev)
  have f2: "outer e1 = outer e0"
    if "evalIf (evalLisp k) xs e0 h0 = Some (r0, e1, h1)" for xs e0 h0 r0 e1 h1
    using that by (rule evalIf_outer [rotated]) (rule ev)
  have f3: "outer e1 = outer e0"
    if "evalBody (evalLisp k) xs v e0 h0 = Some (r0, e1, h1)" for xs v e0 h0 r0 e1 h1
    using that by (rule evalBody_outer [rotated]) (rule ev)
  have f4: "outer e1 = outer e0"
    if "evalLet (evalLisp k) xs e0 h0 = Some (r0, e1, h1)" for xs e0 h0 r0 e1 h1
    using that by (rule evalLet_env [rotated]) (rule ev)
  have f5: "outer e1 = outer e0"
    if "evalApply (evalLisp k) xs e0 h0 = Some (r0, e1, h1)" for xs e0 h0 r0 e1 h1
    using that by (rule evalApply_outer [rotated]) (rule ev)
  note forms = f1 f2 f3 f4 f5 evalDefun_outer
  show ?case
  proof (cases expr)
    case (LIST elements)
    show ?thesis
    proof (cases "elements = []")
      case True
      then show ?thesis using Suc.prems LIST by (simp add: ret_def)
    next
      case False
      show ?thesis
      proof (cases "at elements 0")
        case (SYMBOL nm)
        then show ?thesis
          using Suc.prems LIST False
          by (auto simp: evalQuote_def evalSetq_def evalProgn_def ret_def split: if_splits
                   dest: forms)
      qed (use Suc.prems LIST False in \<open>auto simp: throw_def dest: forms\<close>)
    qed
  qed (use Suc.prems in \<open>auto simp: throw_def ret_def\<close>)
qed

section \<open>\<^verbatim>\<open>setq\<close>\<close>

lemma eval_setq_one:
  "evalLisp (Suc k) (LIST [SYMBOL ''setq'', SYMBOL s, e]) env h =
     (case evalLisp k e env h of
        None \<Rightarrow> None
      | Some (Inl x, env1, h1) \<Rightarrow> Some (Inl x, env1, h1)
      | Some (Inr v, env1, h1) \<Rightarrow> Some (Inr v, LispEnv ((vars env1)(s \<mapsto> v)) (outer env1), h1))"
  by (simp add: evalSetq_def bind_def ret_def env_set_def at_def split: option.splits sum.splits prod.splits)

lemma setqLoop_result:
  "rest \<noteq> [] \<Longrightarrow> setqLoop ev rest r1 env h = setqLoop ev rest r2 env h"
proof (cases rest)
  case Nil
  then show "rest \<noteq> [] \<Longrightarrow> ?thesis" by simp
next
  case (Cons a as)
  then show ?thesis by (cases as) simp_all
qed

lemma eval_setq_more:
  assumes "rest \<noteq> []"
  shows "evalLisp (Suc k) (LIST (SYMBOL ''setq'' # SYMBOL s # e # rest)) env h =
     (case evalLisp (Suc k) (LIST [SYMBOL ''setq'', SYMBOL s, e]) env h of
        None \<Rightarrow> None
      | Some (Inl x, env1, h1) \<Rightarrow> Some (Inl x, env1, h1)
      | Some (Inr v, env1, h1) \<Rightarrow> evalLisp (Suc k) (LIST (SYMBOL ''setq'' # rest)) env1 h1)"
proof -
  have r: "setqLoop (evalLisp k) rest v env1 h1 = setqLoop (evalLisp k) rest NULL env1 h1"
    for v env1 h1
    by (rule setqLoop_result [OF assms])
  have q: "(\<lambda>val env' h'. setqLoop (evalLisp k) rest val (env_set env' s val) h')
      = (\<lambda>val env' h'. setqLoop (evalLisp k) rest NULL (env_set env' s val) h')"
    by (intro ext) (rule r)
  have l: "evalLisp (Suc k) (LIST (SYMBOL ''setq'' # SYMBOL s # e # rest)) env h =
      bind (evalLisp k e env h) (\<lambda>val env' h'.
        setqLoop (evalLisp k) rest NULL (env_set env' s val) h')"
    unfolding q [symmetric] by (simp add: evalSetq_def at_def)
  have m: "evalLisp (Suc k) (LIST (SYMBOL ''setq'' # rest)) env1 h1
      = setqLoop (evalLisp k) rest NULL env1 h1" for env1 h1
    by (simp add: evalSetq_def at_def)
  show ?thesis
    unfolding l m eval_setq_one
    by (simp add: bind_def env_set_def split: option.splits sum.splits prod.splits)
qed

lemma eval_let_empty_env:
  assumes "evalLisp k (LIST (SYMBOL ''let'' # LIST [] # body)) env h = Some (r, env', h')"
  shows "env' = env"
proof (cases k)
  case 0
  then show ?thesis using assms by simp
next
  case (Suc j)
  have eb: "outer e1 = outer e0"
    if "evalBody (evalLisp j) bs v e0 h0 = Some (r0, e1, h1)" for bs v e0 h0 r0 e1 h1
    using that by (rule evalBody_outer [rotated]) (rule evalLisp_outer)
  from assms Suc have "inChild Map.empty (evalBody (evalLisp j) body NULL) env h = Some (r, env', h')"
    by (simp add: evalLet_def at_def bind_def ret_def)
  then show ?thesis by (rule inChild_env [rotated]) (rule eb)
qed

lemma parse_let_setq:
  "parse ''(progn (let () (setq x 5)) x)'' =
     Some (Inr (LIST [SYMBOL ''progn'',
       LIST [SYMBOL ''let'', LIST [], LIST [SYMBOL ''setq'', SYMBOL ''x'', NUMBER (Integer 5)]],
       SYMBOL ''x'']))"
  by code_simp

lemma global_x: "env_get createGlobalEnv ''x'' = Inl (Error ''Void variable: x'')"
  by (simp add: createGlobalEnv_def)

lemma eval_let_setq:
  "evalLisp (Suc (Suc (Suc (Suc k)))) (LIST [SYMBOL ''progn'',
       LIST [SYMBOL ''let'', LIST [], LIST [SYMBOL ''setq'', SYMBOL ''x'', NUMBER (Integer 5)]],
       SYMBOL ''x'']) createGlobalEnv h
   = Some (Inl (Error ''Void variable: x''), createGlobalEnv, h)"
  by (simp add: evalProgn_def evalLet_def evalSetq_def inChild_def bind_def ret_def at_def
        env_set_def global_x)

text \<open>
  C4. \<^verbatim>\<open>(setq s e)\<close> evaluates \<open>e\<close> in the current environment, binds \<open>s\<close> to the value in
  the bindings of the current environment, whose \<open>outer\<close> it keeps, and gives the
  value; with more pairs, the first pair is done and then the others, so that the
  result is the last value assigned. No evaluation changes the environments that
  enclose the one it runs in. A \<^verbatim>\<open>let\<close> without bindings leaves the environment it is
  evaluated in as it was, whatever its body assigns; \<^verbatim>\<open>(progn (let () (setq x 5)) x)\<close>
  fails in the global environment: \<open>x\<close> is unbound after the \<^verbatim>\<open>let\<close>.
\<close>

theorem setq_current_scope:
  "(\<forall>k s e env h.
      evalLisp (Suc k) (LIST [SYMBOL ''setq'', SYMBOL s, e]) env h =
        (case evalLisp k e env h of
           None \<Rightarrow> None
         | Some (Inl x, env1, h1) \<Rightarrow> Some (Inl x, env1, h1)
         | Some (Inr v, env1, h1) \<Rightarrow>
             Some (Inr v, LispEnv ((vars env1)(s \<mapsto> v)) (outer env1), h1)))
   \<and> (\<forall>k s e rest env h. rest \<noteq> [] \<longrightarrow>
      evalLisp (Suc k) (LIST (SYMBOL ''setq'' # SYMBOL s # e # rest)) env h =
        (case evalLisp (Suc k) (LIST [SYMBOL ''setq'', SYMBOL s, e]) env h of
           None \<Rightarrow> None
         | Some (Inl x, env1, h1) \<Rightarrow> Some (Inl x, env1, h1)
         | Some (Inr v, env1, h1) \<Rightarrow> evalLisp (Suc k) (LIST (SYMBOL ''setq'' # rest)) env1 h1))
   \<and> (\<forall>k expr env h r env' h'.
        evalLisp k expr env h = Some (r, env', h') \<longrightarrow> outer env' = outer env)
   \<and> (\<forall>k body env h r env' h'.
        evalLisp k (LIST (SYMBOL ''let'' # LIST [] # body)) env h = Some (r, env', h')
        \<longrightarrow> env' = env)
   \<and> (\<exists>e. parse ''(progn (let () (setq x 5)) x)'' = Some (Inr e)
          \<and> (\<forall>k h. evalLisp (Suc (Suc (Suc (Suc k)))) e createGlobalEnv h
                      = Some (Inl (Error ''Void variable: x''), createGlobalEnv, h)))"
proof (intro conjI)
  show "\<forall>k s e env h.
      evalLisp (Suc k) (LIST [SYMBOL ''setq'', SYMBOL s, e]) env h =
        (case evalLisp k e env h of
           None \<Rightarrow> None
         | Some (Inl x, env1, h1) \<Rightarrow> Some (Inl x, env1, h1)
         | Some (Inr v, env1, h1) \<Rightarrow>
             Some (Inr v, LispEnv ((vars env1)(s \<mapsto> v)) (outer env1), h1))"
    using eval_setq_one by blast
next
  show "\<forall>k s e rest env h. rest \<noteq> [] \<longrightarrow>
      evalLisp (Suc k) (LIST (SYMBOL ''setq'' # SYMBOL s # e # rest)) env h =
        (case evalLisp (Suc k) (LIST [SYMBOL ''setq'', SYMBOL s, e]) env h of
           None \<Rightarrow> None
         | Some (Inl x, env1, h1) \<Rightarrow> Some (Inl x, env1, h1)
         | Some (Inr v, env1, h1) \<Rightarrow> evalLisp (Suc k) (LIST (SYMBOL ''setq'' # rest)) env1 h1)"
    using eval_setq_more by blast
next
  show "\<forall>k expr env h r env' h'.
        evalLisp k expr env h = Some (r, env', h') \<longrightarrow> outer env' = outer env"
    using evalLisp_outer by blast
next
  show "\<forall>k body env h r env' h'.
        evalLisp k (LIST (SYMBOL ''let'' # LIST [] # body)) env h = Some (r, env', h')
        \<longrightarrow> env' = env"
    using eval_let_empty_env by blast
next
  show "\<exists>e. parse ''(progn (let () (setq x 5)) x)'' = Some (Inr e)
          \<and> (\<forall>k h. evalLisp (Suc (Suc (Suc (Suc k)))) e createGlobalEnv h
                      = Some (Inl (Error ''Void variable: x''), createGlobalEnv, h))"
    using parse_let_setq eval_let_setq by blast
qed

theorem setq_current_scope_witness:
  "evalLisp (Suc (Suc (Suc 0)))
     (LIST [SYMBOL ''let'', LIST [], LIST [SYMBOL ''setq'', SYMBOL ''x'', NUMBER (Integer 5)]])
     createGlobalEnv emptyScratch
   = Some (Inr (NUMBER (Integer 5)), createGlobalEnv, emptyScratch)
   \<and> evalLisp (Suc (Suc 0))
       (LIST [SYMBOL ''setq'', SYMBOL ''x'', NUMBER (Integer 1), SYMBOL ''y'', NUMBER (Integer 2)])
       (LispEnv Map.empty (Some createGlobalEnv)) emptyScratch
     = Some (Inr (NUMBER (Integer 2)),
             LispEnv [''x'' \<mapsto> NUMBER (Integer 1), ''y'' \<mapsto> NUMBER (Integer 2)]
               (Some createGlobalEnv), emptyScratch)"
proof -
  let ?form = "LIST [SYMBOL ''let'', LIST [], LIST [SYMBOL ''setq'', SYMBOL ''x'', NUMBER (Integer 5)]]"
  have "\<exists>env'. evalLisp (Suc (Suc (Suc 0))) ?form createGlobalEnv emptyScratch
          = Some (Inr (NUMBER (Integer 5)), env', emptyScratch)"
    by (simp add: evalLet_def evalSetq_def inChild_def bind_def ret_def at_def)
  then obtain env' where r: "evalLisp (Suc (Suc (Suc 0))) ?form createGlobalEnv emptyScratch
          = Some (Inr (NUMBER (Integer 5)), env', emptyScratch)" ..
  have "env' = createGlobalEnv"
    using setq_current_scope [THEN conjunct2, THEN conjunct2, THEN conjunct2, THEN conjunct1,
        rule_format, OF r] .
  with r have one: "evalLisp (Suc (Suc (Suc 0))) ?form createGlobalEnv emptyScratch
          = Some (Inr (NUMBER (Integer 5)), createGlobalEnv, emptyScratch)" by simp
  have ne: "[SYMBOL ''y'', NUMBER (Integer 2)] \<noteq> []" by simp
  have two: "evalLisp (Suc (Suc 0))
       (LIST [SYMBOL ''setq'', SYMBOL ''x'', NUMBER (Integer 1), SYMBOL ''y'', NUMBER (Integer 2)])
       (LispEnv Map.empty (Some createGlobalEnv)) emptyScratch
     = Some (Inr (NUMBER (Integer 2)),
             LispEnv [''x'' \<mapsto> NUMBER (Integer 1), ''y'' \<mapsto> NUMBER (Integer 2)]
               (Some createGlobalEnv), emptyScratch)"
    unfolding setq_current_scope [THEN conjunct2, THEN conjunct1, rule_format, OF ne]
      setq_current_scope [THEN conjunct1, rule_format]
    by (simp add: ret_def)
  from one two show ?thesis by blast
qed

section \<open>Function application\<close>

lemma bindParams_other:
  "x \<notin> set ps \<Longrightarrow> bindParams ps i args m x = m x"
  by (induction ps arbitrary: i m) auto

lemma bindParams_last:
  "j < length ps \<Longrightarrow> (\<forall>j'. j < j' \<and> j' < length ps \<longrightarrow> ps ! j' \<noteq> ps ! j) \<Longrightarrow>
   bindParams ps i args m (ps ! j) = Some (orNull (at args (i + j)))"
proof (induction ps arbitrary: i m j)
  case Nil
  then show ?case by simp
next
  case (Cons p ps)
  let ?m = "m(p \<mapsto> orNull (at args i))"
  show ?case
  proof (cases j)
    case 0
    have "p \<notin> set ps"
    proof
      assume "p \<in> set ps"
      then obtain n where n: "n < length ps" "ps ! n = p" by (auto simp: in_set_conv_nth)
      have "(p # ps) ! Suc n \<noteq> (p # ps) ! j" using Cons.prems(2) 0 n(1) by auto
      then show False using n(2) 0 by simp
    qed
    then show ?thesis using bindParams_other [of p ps "i + 1" args ?m] 0 by simp
  next
    case (Suc j0)
    have l: "\<forall>j'. j0 < j' \<and> j' < length ps \<longrightarrow> ps ! j' \<noteq> ps ! j0"
    proof (intro allI impI)
      fix j' assume a: "j0 < j' \<and> j' < length ps"
      have "(p # ps) ! Suc j' \<noteq> (p # ps) ! j" using Cons.prems(2) Suc a by auto
      then show "ps ! j' \<noteq> ps ! j0" using Suc by simp
    qed
    have j0: "j0 < length ps" using Cons.prems(1) Suc by simp
    have e: "i + 1 + j0 = i + j" using Suc by simp
    have "bindParams (p # ps) i args m ((p # ps) ! j) = bindParams ps (i + 1) args ?m (ps ! j0)"
      using Suc by simp
    also have "\<dots> = Some (orNull (at args (i + 1 + j0)))"
      by (rule Cons.IH [OF j0 l])
    finally show ?thesis unfolding e .
  qed
qed

lemma orNull_at:
  "orNull (at args j) = (if j < length args \<and> args ! j \<noteq> UNDEFINED then args ! j else NULL)"
  by (simp add: orNull_def at_def)

lemma evalLisp_UNDEFINED: "evalLisp k UNDEFINED env h \<noteq> Some (Inr v, env', h')"
  by (cases k) (simp_all add: throw_def)

lemma eval_apply_func:
  assumes nsf: "\<forall>nm. hd0 = SYMBOL nm \<longrightarrow>
        nm \<notin> {''quote'', ''setq'', ''if'', ''defun'', ''progn'', ''let'', ''interactive''}"
    and fn: "evalLisp k hd0 env h = Some (Inr (FUNC ps body), env1, h1)"
    and args: "evalArgs (evalLisp k) argExprs env1 h1 = Some (Inr args, env2, h2)"
  shows "evalLisp (Suc k) (LIST (hd0 # argExprs)) env h =
     (case evalLisp k body (LispEnv (bindParams ps 0 args Map.empty) (Some env2)) h2 of
        None \<Rightarrow> None
      | Some (r, c', h3) \<Rightarrow> Some (r, env2, h3))"
proof -
  have nu: "hd0 \<noteq> UNDEFINED" using fn evalLisp_UNDEFINED by auto
  have ap: "evalLisp (Suc k) (LIST (hd0 # argExprs)) env h
          = evalApply (evalLisp k) (hd0 # argExprs) env h"
    using nsf nu by (cases hd0) (auto simp: at_def)
  have ic: "inChild vs (evalLisp k body) env2 h2 =
     (case evalLisp k body (LispEnv vs (Some env2)) h2 of
        None \<Rightarrow> None | Some (r, c', h') \<Rightarrow> Some (r, env2, h'))" for vs
    by (rule inChild_eq) (rule evalLisp_outer)
  show ?thesis
    unfolding ap using fn args
    by (simp add: evalApply_def bind_def at_def ic)
qed

lemma parse_dynamic:
  "parse ''(progn (defun f () x) (let ((x 7)) (f)))'' =
     Some (Inr (LIST [SYMBOL ''progn'',
        LIST [SYMBOL ''defun'', SYMBOL ''f'', LIST [], SYMBOL ''x''],
        LIST [SYMBOL ''let'', LIST [LIST [SYMBOL ''x'', NUMBER (Integer 7)]], LIST [SYMBOL ''f'']]]))"
  by code_simp

lemma eval_dynamic:
  "evalLisp (Suc (Suc (Suc (Suc (Suc k))))) (LIST [SYMBOL ''progn'',
        LIST [SYMBOL ''defun'', SYMBOL ''f'', LIST [], SYMBOL ''x''],
        LIST [SYMBOL ''let'', LIST [LIST [SYMBOL ''x'', NUMBER (Integer 7)]], LIST [SYMBOL ''f'']]])
      createGlobalEnv h
   = Some (Inr (NUMBER (Integer 7)),
           env_define createGlobalEnv ''f'' (FUNC [] (LIST [SYMBOL ''progn'', SYMBOL ''x''])), h)"
  by (simp add: evalProgn_def evalDefun_def evalLet_def evalApply_def inChild_def bind_def ret_def
        at_def env_define_def Let_def)

text \<open>
  C5. Let the head of a list form, which is not the name of a special form, evaluate
  to a function with parameters \<open>ps\<close> and body \<open>body\<close>, and the other elements to
  \<open>args\<close>, leaving the calling environment as \<open>env2\<close>. Then the form is evaluated as the
  body in a new environment \<open>child\<close>, whose \<open>outer\<close> is \<open>env2\<close> and which binds
  exactly the parameters: each to the argument at its index (when a name occurs twice,
  its last occurrence counts), and to \<open>NULL\<close> where there is no argument (or the
  argument is \<^verbatim>\<open>undefined\<close>); arguments beyond the parameters are bound to nothing. The
  caller goes on with \<open>env2\<close>. The environment of the definition plays no part: a
  function defined at top level reads the \<open>x\<close> bound by the \<^verbatim>\<open>let\<close> it is called in.
\<close>

theorem function_application:
  "(\<forall>k hd0 argExprs env h ps body env1 h1 args env2 h2.
      (\<forall>nm. hd0 = SYMBOL nm \<longrightarrow>
         nm \<notin> {''quote'', ''setq'', ''if'', ''defun'', ''progn'', ''let'', ''interactive''}) \<and>
      evalLisp k hd0 env h = Some (Inr (FUNC ps body), env1, h1) \<and>
      evalArgs (evalLisp k) argExprs env1 h1 = Some (Inr args, env2, h2) \<longrightarrow>
      (\<exists>child. outer child = Some env2 \<and>
         (\<forall>x. x \<notin> set ps \<longrightarrow> vars child x = None) \<and>
         (\<forall>j<length ps. (\<forall>j'. j < j' \<and> j' < length ps \<longrightarrow> ps ! j' \<noteq> ps ! j) \<longrightarrow>
            vars child (ps ! j) =
              Some (if j < length args \<and> args ! j \<noteq> UNDEFINED then args ! j else NULL)) \<and>
         evalLisp (Suc k) (LIST (hd0 # argExprs)) env h =
           (case evalLisp k body child h2 of
              None \<Rightarrow> None
            | Some (r, c', h3) \<Rightarrow> Some (r, env2, h3))))
   \<and> (\<exists>e. parse ''(progn (defun f () x) (let ((x 7)) (f)))'' = Some (Inr e)
          \<and> (\<forall>k h. \<exists>env'. evalLisp (Suc (Suc (Suc (Suc (Suc k))))) e createGlobalEnv h
                      = Some (Inr (NUMBER (Integer 7)), env', h)))"
proof (intro conjI)
  show "\<forall>k hd0 argExprs env h ps body env1 h1 args env2 h2.
      (\<forall>nm. hd0 = SYMBOL nm \<longrightarrow>
         nm \<notin> {''quote'', ''setq'', ''if'', ''defun'', ''progn'', ''let'', ''interactive''}) \<and>
      evalLisp k hd0 env h = Some (Inr (FUNC ps body), env1, h1) \<and>
      evalArgs (evalLisp k) argExprs env1 h1 = Some (Inr args, env2, h2) \<longrightarrow>
      (\<exists>child. outer child = Some env2 \<and>
         (\<forall>x. x \<notin> set ps \<longrightarrow> vars child x = None) \<and>
         (\<forall>j<length ps. (\<forall>j'. j < j' \<and> j' < length ps \<longrightarrow> ps ! j' \<noteq> ps ! j) \<longrightarrow>
            vars child (ps ! j) =
              Some (if j < length args \<and> args ! j \<noteq> UNDEFINED then args ! j else NULL)) \<and>
         evalLisp (Suc k) (LIST (hd0 # argExprs)) env h =
           (case evalLisp k body child h2 of
              None \<Rightarrow> None
            | Some (r, c', h3) \<Rightarrow> Some (r, env2, h3)))"
  proof (intro allI impI)
    fix k hd0 argExprs env h ps body env1 h1 args env2 h2
    assume a: "(\<forall>nm. hd0 = SYMBOL nm \<longrightarrow>
         nm \<notin> {''quote'', ''setq'', ''if'', ''defun'', ''progn'', ''let'', ''interactive''}) \<and>
      evalLisp k hd0 env h = Some (Inr (FUNC ps body), env1, h1) \<and>
      evalArgs (evalLisp k) argExprs env1 h1 = Some (Inr args, env2, h2)"
    let ?child = "LispEnv (bindParams ps 0 args Map.empty) (Some env2)"
    have 1: "outer ?child = Some env2" by simp
    have 2: "\<forall>x. x \<notin> set ps \<longrightarrow> vars ?child x = None"
      by (simp add: bindParams_other)
    have 3: "\<forall>j<length ps. (\<forall>j'. j < j' \<and> j' < length ps \<longrightarrow> ps ! j' \<noteq> ps ! j) \<longrightarrow>
            vars ?child (ps ! j) =
              Some (if j < length args \<and> args ! j \<noteq> UNDEFINED then args ! j else NULL)"
      using bindParams_last [of _ ps 0 args Map.empty] by (simp add: orNull_at)
    have 4: "evalLisp (Suc k) (LIST (hd0 # argExprs)) env h =
           (case evalLisp k body ?child h2 of
              None \<Rightarrow> None
            | Some (r, c', h3) \<Rightarrow> Some (r, env2, h3))"
      using a by (intro eval_apply_func) auto
    from 1 2 3 4 show "\<exists>child. outer child = Some env2 \<and>
         (\<forall>x. x \<notin> set ps \<longrightarrow> vars child x = None) \<and>
         (\<forall>j<length ps. (\<forall>j'. j < j' \<and> j' < length ps \<longrightarrow> ps ! j' \<noteq> ps ! j) \<longrightarrow>
            vars child (ps ! j) =
              Some (if j < length args \<and> args ! j \<noteq> UNDEFINED then args ! j else NULL)) \<and>
         evalLisp (Suc k) (LIST (hd0 # argExprs)) env h =
           (case evalLisp k body child h2 of
              None \<Rightarrow> None
            | Some (r, c', h3) \<Rightarrow> Some (r, env2, h3))"
      by blast
  qed
next
  show "\<exists>e. parse ''(progn (defun f () x) (let ((x 7)) (f)))'' = Some (Inr e)
          \<and> (\<forall>k h. \<exists>env'. evalLisp (Suc (Suc (Suc (Suc (Suc k))))) e createGlobalEnv h
                      = Some (Inr (NUMBER (Integer 7)), env', h))"
    using parse_dynamic eval_dynamic by blast
qed

theorem function_application_witness:
  "evalLisp (Suc (Suc 0)) (LIST [SYMBOL ''f'', NUMBER (Integer 1)])
     (LispEnv [''f'' \<mapsto> FUNC [''a'', ''b''] (SYMBOL ''b'')] None) emptyScratch
   = Some (Inr NULL, LispEnv [''f'' \<mapsto> FUNC [''a'', ''b''] (SYMBOL ''b'')] None, emptyScratch)"
proof -
  let ?env = "LispEnv [''f'' \<mapsto> FUNC [''a'', ''b''] (SYMBOL ''b'')] None"
  have a: "(\<forall>nm. SYMBOL ''f'' = SYMBOL nm \<longrightarrow>
         nm \<notin> {''quote'', ''setq'', ''if'', ''defun'', ''progn'', ''let'', ''interactive''}) \<and>
      evalLisp (Suc 0) (SYMBOL ''f'') ?env emptyScratch
        = Some (Inr (FUNC [''a'', ''b''] (SYMBOL ''b'')), ?env, emptyScratch) \<and>
      evalArgs (evalLisp (Suc 0)) [NUMBER (Integer 1)] ?env emptyScratch
        = Some (Inr [NUMBER (Integer 1)], ?env, emptyScratch)"
    by (simp add: bind_def ret_def)
  from function_application [THEN conjunct1, rule_format, OF a]
  obtain child where c: "outer child = Some ?env"
    and b: "\<forall>j<length [''a'', ''b''].
       (\<forall>j'. j < j' \<and> j' < length [''a'', ''b''] \<longrightarrow> [''a'', ''b''] ! j' \<noteq> [''a'', ''b''] ! j) \<longrightarrow>
            vars child ([''a'', ''b''] ! j) =
              Some (if j < length [NUMBER (Integer 1)] \<and> [NUMBER (Integer 1)] ! j \<noteq> UNDEFINED
                    then [NUMBER (Integer 1)] ! j else NULL)"
    and e: "evalLisp (Suc (Suc 0)) (LIST [SYMBOL ''f'', NUMBER (Integer 1)]) ?env emptyScratch =
           (case evalLisp (Suc 0) (SYMBOL ''b'') child emptyScratch of
              None \<Rightarrow> None
            | Some (r, c', h3) \<Rightarrow> Some (r, ?env, h3))"
    by blast
  have l1: "(1::nat) < length [''a'', ''b'']" by simp
  have nl: "\<forall>j'. (1::nat) < j' \<and> j' < length [''a'', ''b''] \<longrightarrow>
      [''a'', ''b''] ! j' \<noteq> [''a'', ''b''] ! 1"
    by auto
  have "vars child ([''a'', ''b''] ! 1) =
      Some (if 1 < length [NUMBER (Integer 1)] \<and> [NUMBER (Integer 1)] ! 1 \<noteq> UNDEFINED
            then [NUMBER (Integer 1)] ! 1 else NULL)"
    using b l1 nl by blast
  then have "vars child ''b'' = Some NULL" by simp
  then have "env_get child ''b'' = Inr NULL" by (cases child) simp
  then show ?thesis unfolding e by simp
qed

section \<open>\<^verbatim>\<open>let\<close>\<close>

lemma map_add_rev_Cons:
  "m(v \<mapsto> x) ++ map_of (rev nvs) = m ++ map_of (rev ((v, x) # nvs))"
  by (rule ext) (simp add: map_add_def split: option.splits)

lemma letBindings_inits:
  "letBindings ev (map bindingForm bs) m env h =
     (case letInits ev bs env h of
        None \<Rightarrow> None
      | Some (Inl x, env', h') \<Rightarrow> Some (Inl x, env', h')
      | Some (Inr nvs, env', h') \<Rightarrow> Some (Inr (m ++ map_of (rev nvs)), env', h'))"
proof (induction bs arbitrary: m env h)
  case Nil
  then show ?case by (simp add: ret_def)
next
  case (Cons b bs)
  obtain v eo where b: "b = (v, eo)" by (cases b)
  show ?case
  proof (cases eo)
    case None
    have step: "letBindings ev (map bindingForm (b # bs)) m env h
        = letBindings ev (map bindingForm bs) (m(v \<mapsto> NULL)) env h"
      using b None by simp
    have spec: "letInits ev (b # bs) env h =
       (case letInits ev bs env h of
        None \<Rightarrow> None
      | Some (Inl x, env', h') \<Rightarrow> Some (Inl x, env', h')
      | Some (Inr nvs, env', h') \<Rightarrow> Some (Inr ((v, NULL) # nvs), env', h'))"
      using b None by simp
    show ?thesis
    proof (cases "letInits ev bs env h")
      case None
      show ?thesis unfolding step spec Cons.IH None by simp
    next
      case (Some res)
      obtain r env1 h1 where res: "res = (r, env1, h1)" by (cases res)
      show ?thesis
        unfolding step spec Cons.IH Some res
        by (cases r) (simp_all del: rev.simps map_of.simps add: map_add_rev_Cons)
    qed
  next
    case (Some e)
    have step: "letBindings ev (map bindingForm (b # bs)) m env h
        = bind (ev e env h) (\<lambda>val env' h'.
            letBindings ev (map bindingForm bs) (m(v \<mapsto> val)) env' h')"
      using b Some by (simp add: at_def)
    have spec: "letInits ev (b # bs) env h =
     (case ev e env h of
        None \<Rightarrow> None
      | Some (Inl x, env1, h1) \<Rightarrow> Some (Inl x, env1, h1)
      | Some (Inr val, env1, h1) \<Rightarrow>
          (case letInits ev bs env1 h1 of
             None \<Rightarrow> None
           | Some (Inl x, env', h') \<Rightarrow> Some (Inl x, env', h')
           | Some (Inr nvs, env', h') \<Rightarrow> Some (Inr ((v, val) # nvs), env', h')))"
      using b Some by simp
    show ?thesis
    proof (cases "ev e env h")
      case None
      then show ?thesis unfolding step spec by (simp add: bind_def)
    next
      case (Some res)
      obtain r env1 h1 where res: "res = (r, env1, h1)" by (cases res)
      show ?thesis
      proof (cases r)
        case (Inl x)
        then show ?thesis unfolding step spec using Some res by (simp add: bind_def)
      next
        case (Inr val)
        have "letBindings ev (map bindingForm (b # bs)) m env h
            = letBindings ev (map bindingForm bs) (m(v \<mapsto> val)) env1 h1"
          unfolding step using Some res Inr by (simp add: bind_def)
        also have "\<dots> = (case letInits ev bs env1 h1 of
            None \<Rightarrow> None
          | Some (Inl x, env', h') \<Rightarrow> Some (Inl x, env', h')
          | Some (Inr nvs, env', h') \<Rightarrow>
              Some (Inr (m ++ map_of (rev ((v, val) # nvs))), env', h'))"
          unfolding Cons.IH map_add_rev_Cons ..
        also have "\<dots> = (case letInits ev (b # bs) env h of
            None \<Rightarrow> None
          | Some (Inl x, env', h') \<Rightarrow> Some (Inl x, env', h')
          | Some (Inr nvs, env', h') \<Rightarrow> Some (Inr (m ++ map_of (rev nvs)), env', h'))"
          unfolding spec using Some res Inr
          by (cases "letInits ev bs env1 h1")
             (auto simp del: rev.simps map_of.simps split: sum.splits prod.splits)
        finally show ?thesis .
      qed
    qed
  qed
qed

lemma eval_let:
  "evalLisp (Suc k) (LIST (SYMBOL ''let'' # LIST (map bindingForm bs) # body)) env h =
     (case letInits (evalLisp k) bs env h of
        None \<Rightarrow> None
      | Some (Inl x, env1, h1) \<Rightarrow> Some (Inl x, env1, h1)
      | Some (Inr nvs, env1, h1) \<Rightarrow>
          (case evalBody (evalLisp k) body NULL (LispEnv (map_of (rev nvs)) (Some env1)) h1 of
             None \<Rightarrow> None
           | Some (r, c', h2) \<Rightarrow> Some (r, env1, h2)))"
proof -
  have eb: "outer e1 = outer e0"
    if "evalBody (evalLisp k) xs v e0 h0 = Some (r0, e1, h1)" for xs v e0 h0 r0 e1 h1
    using that by (rule evalBody_outer [rotated]) (rule evalLisp_outer)
  have ic: "inChild vs (evalBody (evalLisp k) body NULL) env1 h1 =
     (case evalBody (evalLisp k) body NULL (LispEnv vs (Some env1)) h1 of
        None \<Rightarrow> None | Some (r, c', h') \<Rightarrow> Some (r, env1, h'))" for vs env1 h1
    by (rule inChild_eq) (rule eb)
  show ?thesis
    by (simp add: evalLet_def at_def letBindings_inits bind_def ic
             split: option.splits sum.splits prod.splits)
qed

lemma evalBody_Nil: "evalBody ev [] r env h = Some (Inr r, env, h)"
  by (simp add: ret_def)

lemma evalBody_snoc:
  "evalBody ev (es @ [e]) r env h =
     (case evalBody ev es r env h of
        None \<Rightarrow> None
      | Some (Inl x, env', h') \<Rightarrow> Some (Inl x, env', h')
      | Some (Inr v, env', h') \<Rightarrow> ev e env' h')"
proof (induction es arbitrary: r env h)
  case Nil
  show ?case
    by (cases "ev e env h")
       (auto simp: bind_def ret_def split: option.splits sum.splits prod.splits)
next
  case (Cons a es)
  show ?case
    by (cases "ev a env h")
       (auto simp: bind_def Cons.IH split: option.splits sum.splits prod.splits)
qed

lemma parse_let_parallel:
  "parse ''(let ((x 1) (y x)) y)'' =
     Some (Inr (LIST [SYMBOL ''let'',
        LIST [LIST [SYMBOL ''x'', NUMBER (Integer 1)], LIST [SYMBOL ''y'', SYMBOL ''x'']],
        SYMBOL ''y'']))"
  by code_simp

lemma eval_let_parallel:
  "evalLisp (Suc (Suc k)) (LIST [SYMBOL ''let'',
        LIST [LIST [SYMBOL ''x'', NUMBER (Integer 1)], LIST [SYMBOL ''y'', SYMBOL ''x'']],
        SYMBOL ''y'']) createGlobalEnv h
   = Some (Inl (Error ''Void variable: x''), createGlobalEnv, h)"
  by (simp add: evalLet_def bind_def ret_def at_def global_x)

lemma parse_let_bare:
  "parse ''(let ((x 2) y) (list x y))'' =
     Some (Inr (LIST [SYMBOL ''let'',
        LIST [LIST [SYMBOL ''x'', NUMBER (Integer 2)], SYMBOL ''y''],
        LIST [SYMBOL ''list'', SYMBOL ''x'', SYMBOL ''y'']]))"
  by code_simp

lemma global_list: "env_get createGlobalEnv ''list'' = Inr (PRIMITIVE ListOp)"
  by (simp add: createGlobalEnv_def)

lemma eval_let_bare:
  "evalLisp (Suc (Suc (Suc k))) (LIST [SYMBOL ''let'',
        LIST [LIST [SYMBOL ''x'', NUMBER (Integer 2)], SYMBOL ''y''],
        LIST [SYMBOL ''list'', SYMBOL ''x'', SYMBOL ''y'']]) createGlobalEnv h
   = Some (Inr (LIST [NUMBER (Integer 2), NULL]), createGlobalEnv, h)"
  by (simp add: evalLet_def evalApply_def inChild_def bind_def ret_def at_def global_list
        applyPrimitive_def)

text \<open>
  C6. A \<^verbatim>\<open>let\<close> whose bindings are variables with initialisers, or bare variables,
  evaluates the initialisers in order, each in the environment the \<^verbatim>\<open>let\<close> is evaluated
  in (\<open>letInits\<close>); it then evaluates the body elements in order in one new
  environment whose \<open>outer\<close> is that environment and which binds each variable to its
  value, a bare variable to \<open>NULL\<close> (a later binding of a name wins); the caller goes
  on with the environment as the initialisers left it. The value of a body is that of
  its last element, and \<open>NULL\<close> for the empty body of a \<^verbatim>\<open>let\<close>. In
  \<^verbatim>\<open>(let ((x 1) (y x)) y)\<close> the initialiser of \<open>y\<close> does not see the \<open>x\<close> of the same
  \<^verbatim>\<open>let\<close>; \<^verbatim>\<open>(let ((x 2) y) (list x y))\<close> gives the list of 2 and \<open>NULL\<close>.
\<close>

theorem let_parallel:
  "(\<forall>k bs body env h.
      evalLisp (Suc k) (LIST (SYMBOL ''let'' # LIST (map bindingForm bs) # body)) env h =
        (case letInits (evalLisp k) bs env h of
           None \<Rightarrow> None
         | Some (Inl x, env1, h1) \<Rightarrow> Some (Inl x, env1, h1)
         | Some (Inr nvs, env1, h1) \<Rightarrow>
             (case evalBody (evalLisp k) body NULL (LispEnv (map_of (rev nvs)) (Some env1)) h1 of
                None \<Rightarrow> None
              | Some (r, c', h2) \<Rightarrow> Some (r, env1, h2))))
   \<and> (\<forall>ev r env h. evalBody ev [] r env h = Some (Inr r, env, h))
   \<and> (\<forall>ev es e r env h.
        evalBody ev (es @ [e]) r env h =
          (case evalBody ev es r env h of
             None \<Rightarrow> None
           | Some (Inl x, env', h') \<Rightarrow> Some (Inl x, env', h')
           | Some (Inr v, env', h') \<Rightarrow> ev e env' h'))
   \<and> (\<exists>e. parse ''(let ((x 1) (y x)) y)'' = Some (Inr e)
          \<and> (\<forall>k h. evalLisp (Suc (Suc k)) e createGlobalEnv h
                      = Some (Inl (Error ''Void variable: x''), createGlobalEnv, h)))
   \<and> (\<exists>e. parse ''(let ((x 2) y) (list x y))'' = Some (Inr e)
          \<and> (\<forall>k h. evalLisp (Suc (Suc (Suc k))) e createGlobalEnv h
                      = Some (Inr (LIST [NUMBER (Integer 2), NULL]), createGlobalEnv, h)))"
proof (intro conjI)
  show "\<forall>k bs body env h.
      evalLisp (Suc k) (LIST (SYMBOL ''let'' # LIST (map bindingForm bs) # body)) env h =
        (case letInits (evalLisp k) bs env h of
           None \<Rightarrow> None
         | Some (Inl x, env1, h1) \<Rightarrow> Some (Inl x, env1, h1)
         | Some (Inr nvs, env1, h1) \<Rightarrow>
             (case evalBody (evalLisp k) body NULL (LispEnv (map_of (rev nvs)) (Some env1)) h1 of
                None \<Rightarrow> None
              | Some (r, c', h2) \<Rightarrow> Some (r, env1, h2)))"
    using eval_let by blast
next
  show "\<forall>ev r env h. evalBody ev [] r env h = Some (Inr r, env, h)"
    using evalBody_Nil by blast
next
  show "\<forall>ev es e r env h.
        evalBody ev (es @ [e]) r env h =
          (case evalBody ev es r env h of
             None \<Rightarrow> None
           | Some (Inl x, env', h') \<Rightarrow> Some (Inl x, env', h')
           | Some (Inr v, env', h') \<Rightarrow> ev e env' h')"
    using evalBody_snoc by blast
next
  show "\<exists>e. parse ''(let ((x 1) (y x)) y)'' = Some (Inr e)
          \<and> (\<forall>k h. evalLisp (Suc (Suc k)) e createGlobalEnv h
                      = Some (Inl (Error ''Void variable: x''), createGlobalEnv, h))"
    using parse_let_parallel eval_let_parallel by blast
next
  show "\<exists>e. parse ''(let ((x 2) y) (list x y))'' = Some (Inr e)
          \<and> (\<forall>k h. evalLisp (Suc (Suc (Suc k))) e createGlobalEnv h
                      = Some (Inr (LIST [NUMBER (Integer 2), NULL]), createGlobalEnv, h))"
    using parse_let_bare eval_let_bare by blast
qed

theorem let_parallel_witness:
  "evalLisp (Suc (Suc 0))
     (LIST [SYMBOL ''let'', LIST [LIST [SYMBOL ''x'', NUMBER (Integer 1)], SYMBOL ''y''], SYMBOL ''y''])
     createGlobalEnv emptyScratch
   = Some (Inr NULL, createGlobalEnv, emptyScratch)"
proof -
  have f: "[LIST [SYMBOL ''x'', NUMBER (Integer 1)], SYMBOL ''y'']
     = map bindingForm [(''x'', Some (NUMBER (Integer 1))), (''y'', None)]" by simp
  show ?thesis
    unfolding f let_parallel [THEN conjunct1, rule_format]
    by (simp add: bind_def ret_def)
qed

section \<open>The reader returns\<close>













section \<open>Unclosed lists\<close>


lemma dq_not_space [simp]: "\<not> isSpace dq" "\<not> isSpace (CHR ''('')" "\<not> isSpace (CHR '')'')"
  "\<not> isSpace (CHR 0x27)"
  by (simp_all add: isSpace_def dq_def)




















section \<open>Printing and reading back\<close>























end
